theory Spec2Isabelle
  imports Main "HOL-Library.Word" "HOL-Library.Multiset"
begin

unbundle bit_operations_syntax

text \<open>
  A shallow embedding of the routing core of the TCP proxy: the two STARTTLS
  negotiators, the static routing configuration, the ClientHello sniffer over a peekable
  reader, the ACME challenge resolver and the registration of routes on listeners. The
  definitions come first, one section per part of the code, each function under the name
  it has in the source; the properties proved of them follow, again one section per part.
  Library functions the code calls are either modelled next to their caller
  (\<open>strings.Cut\<close>, \<open>strings.Fields\<close>, \<open>fmt.Sscanf\<close>, \<open>bufio.Reader.Peek\<close>) or taken as
  parameters (TLS, regular expressions).
\<close>

section \<open>Text-protocol connections (net/textproto)\<close>

text \<open>
  A \<open>textproto.Conn\<close> is seen line by line: \<open>incoming\<close> holds the lines the peer has
  still to deliver (each already stripped of its line terminator, as \<open>ReadLine\<close> returns
  them), \<open>written\<close> the lines sent so far through \<open>Writer.PrintfLine\<close>, and \<open>closed\<close>
  records a call of \<open>Close\<close>. The element type of a line is a parameter: bytes for the
  IMAP negotiator, runes for the SMTP one (whose parser reads runes).
\<close>

record 'c conn =
  incoming :: "'c list list"
  written :: "'c list list"
  closed :: bool

datatype 'c error =
    EOF
  | UnexpectedEOF
  | ErrorsNew "'c list"
  | UnsupportedCommand "'c list"
  | InputDoesNotMatchFormat
  | ExpectedSpace
  | NewlineInInput
  | UnexpectedNewline
  | CouldNotReadClientName
  | InvalidLine "'c list"
  | TooManyFields "'c list"
  | LibraryError "'c list"
  | ErrBufferFull
  | NotTLS
  | ErrNoProgress

definition ReadLine :: "'c conn \<Rightarrow> ('c error + 'c list) \<times> 'c conn" where
  "ReadLine c =
     (case incoming c of
        [] \<Rightarrow> (Inl EOF, c)
      | l # ls \<Rightarrow> (Inr l, c\<lparr>incoming := ls\<rparr>))"

definition PrintfLine :: "'c conn \<Rightarrow> 'c list \<Rightarrow> 'c conn" where
  "PrintfLine c l = c\<lparr>written := written c @ [l]\<rparr>"

definition Close :: "'c conn \<Rightarrow> 'c conn" where
  "Close c = c\<lparr>closed := True\<rparr>"

section \<open>The IMAP STARTTLS negotiator (starttls\_imap.go)\<close>

text \<open>\<open>strings.Cut(s, " ")\<close>: the text before and after the first space, and whether
  there is one.\<close>

definition Cut :: "string \<Rightarrow> char \<Rightarrow> string \<times> string \<times> bool" where
  "Cut s sep =
     (if sep \<in> set s
      then (takeWhile (\<lambda>c. c \<noteq> sep) s, tl (dropWhile (\<lambda>c. c \<noteq> sep) s), True)
      else (s, [], False))"

definition imap_banner :: string where
  "imap_banner = ''* OK [CAPABILITY IMAP4rev1 STARTTLS LOGINDISABLED] IMAP4rev1 Service Ready''"

definition negotiateIMAPTLS :: "char conn \<Rightarrow> char error option \<times> char conn" where
  "negotiateIMAPTLS c0 =
     (let c1 = PrintfLine c0 imap_banner in
      case ReadLine c1 of
        (Inl err, c2) \<Rightarrow> (Some err, c2)
      | (Inr cmdString, c2) \<Rightarrow>
          (case Cut cmdString CHR '' '' of
             (tag, cmd, found) \<Rightarrow>
               if \<not> found then (Some (ErrorsNew []), c2)
               else if cmd = ''STARTTLS''
               then (None, PrintfLine c2 (tag @ '' OK Begin TLS negotiation now''))
               else (Some (UnsupportedCommand cmd),
                     PrintfLine c2 (tag @ '' '' @ cmd @ '' Unsupported command''))))"

text \<open>The \<open>NegotiateFunc\<close> built by \<open>negotiateIMAPStartTLS\<close>: success is the boolean
  result; on failure the connection is closed.\<close>

definition negotiateIMAPStartTLS :: "char conn \<Rightarrow> bool \<times> char conn" where
  "negotiateIMAPStartTLS c =
     (case negotiateIMAPTLS c of
        (None, t) \<Rightarrow> (True, t)
      | (Some err, t) \<Rightarrow> (False, Close t))"

definition imap_client :: "string \<Rightarrow> char conn" where
  "imap_client l = \<lparr>incoming = [l], written = [], closed = False\<rparr>"

section \<open>Text as runes\<close>

text \<open>
  Where the code hands a Go string to a library function that reads it rune by rune
  (\<open>strings.Fields\<close>, \<open>fmt.Sscanf\<close>), the string is modelled by the sequence of
  runes that decoding it yields. \<open>str\<close> writes an ASCII literal as such a sequence.
  \<open>IsSpace\<close> is the white-space table shared by \<open>unicode.IsSpace\<close> and the scanner of
  package \<open>fmt\<close>.
\<close>

type_synonym rune = nat
type_synonym gostr = "rune list"

definition str :: "string \<Rightarrow> gostr" where
  "str s = map of_char s"

definition IsSpace :: "rune \<Rightarrow> bool" where
  "IsSpace r \<longleftrightarrow>
     (0x09 \<le> r \<and> r \<le> 0x0D) \<or> r = 0x20 \<or> r = 0x85 \<or> r = 0xA0 \<or> r = 0x1680
     \<or> (0x2000 \<le> r \<and> r \<le> 0x200A) \<or> r = 0x2028 \<or> r = 0x2029 \<or> r = 0x202F
     \<or> r = 0x205F \<or> r = 0x3000"

section \<open>The static routing configuration (Config, Route)\<close>

text \<open>
  \<open>strings.Fields\<close>: the maximal runs of non-space runes, in order. \<open>fields_from cur s\<close>
  scans \<open>s\<close> with the field begun so far in \<open>cur\<close>.
\<close>

fun fields_from :: "gostr \<Rightarrow> gostr \<Rightarrow> gostr list" where
  "fields_from cur [] = (if cur = [] then [] else [cur])"
| "fields_from cur (r # rs) =
     (if IsSpace r
      then (if cur = [] then fields_from [] rs else cur # fields_from [] rs)
      else fields_from (cur @ [r]) rs)"

definition Fields :: "gostr \<Rightarrow> gostr list" where
  "Fields s = fields_from [] s"

text \<open>
  A route pairs a compiled pattern with a backend address. The type of compiled patterns
  is a parameter, and so are \<open>regexp.Compile\<close> (reached through \<open>dnsRegex\<close>) and
  \<open>Regexp.MatchString\<close>, which the functions below take as arguments. The mutex of
  \<open>Config\<close> guards the field \<open>routes\<close> and has no counterpart here.
\<close>

record 're Route =
  match :: 're
  backend :: gostr

record 're Config =
  routes :: "'re Route list"

text \<open>
  The \<open>io.Reader\<close> given to \<open>Read\<close> is seen through the \<open>bufio.Scanner\<close> wrapped around
  it: \<open>scan_lines\<close> are the successive values of \<open>s.Text()\<close> while \<open>s.Scan()\<close> is
  true, and \<open>scan_err\<close> is \<open>s.Err()\<close> once it has returned false.
\<close>

record reader =
  scan_lines :: "gostr list"
  scan_err :: "rune error option"

text \<open>\<open>Config.Match\<close>: the loop over \<open>c.routes\<close>, returning at the first pattern that
  matches and the empty string after the loop.\<close>

fun match_routes :: "('re \<Rightarrow> gostr \<Rightarrow> bool) \<Rightarrow> 're Route list \<Rightarrow> gostr \<Rightarrow> gostr" where
  "match_routes MatchString [] hostname = []"
| "match_routes MatchString (r # rs) hostname =
     (if MatchString (match r) hostname then backend r
      else match_routes MatchString rs hostname)"

definition Match :: "('re \<Rightarrow> gostr \<Rightarrow> bool) \<Rightarrow> 're Config \<Rightarrow> gostr \<Rightarrow> gostr" where
  "Match MatchString c hostname = match_routes MatchString (routes c) hostname"

text \<open>
  \<open>Config.Read\<close>. \<open>read_lines\<close> is the scanning loop with the local slice \<open>routes\<close> as
  accumulator, one case per branch of the \<open>switch len(fs)\<close>; \<open>Read\<close> then looks at
  \<open>s.Err()\<close> and only after that assigns \<open>c.routes\<close>. The result is the returned error
  (\<open>None\<close> for \<open>nil\<close>) and the configuration afterwards.
\<close>

fun read_lines ::
  "(gostr \<Rightarrow> rune error + 're) \<Rightarrow> gostr list \<Rightarrow> 're Route list \<Rightarrow> rune error + 're Route list"
where
  "read_lines dnsRegex [] rts = Inr rts"
| "read_lines dnsRegex (t # ts) rts =
     (case Fields t of
        [] \<Rightarrow> read_lines dnsRegex ts rts
      | [f0] \<Rightarrow> Inl (InvalidLine t)
      | [f0, f1] \<Rightarrow>
          (case dnsRegex f0 of
             Inl err \<Rightarrow> Inl err
           | Inr re \<Rightarrow> read_lines dnsRegex ts (rts @ [\<lparr>match = re, backend = f1\<rparr>]))
      | _ \<Rightarrow> Inl (TooManyFields t))"

definition Read ::
  "(gostr \<Rightarrow> rune error + 're) \<Rightarrow> 're Config \<Rightarrow> reader \<Rightarrow> rune error option \<times> 're Config"
where
  "Read dnsRegex c r =
     (case read_lines dnsRegex (scan_lines r) [] of
        Inl err \<Rightarrow> (Some err, c)
      | Inr rts \<Rightarrow>
          (case scan_err r of
             Some err \<Rightarrow> (Some err, c)
           | None \<Rightarrow> (None, c\<lparr>routes := rts\<rparr>)))"

text \<open>Concrete instances used to run the parser: patterns that are literal host names
  (an opening parenthesis standing for a pattern that does not compile).\<close>

definition exact_host :: "gostr \<Rightarrow> gostr \<Rightarrow> bool" where
  "exact_host re hostname \<longleftrightarrow> re = hostname"

definition literal_regex :: "gostr \<Rightarrow> rune error + gostr" where
  "literal_regex s = (if 0x28 \<in> set s then Inl (LibraryError s) else Inr s)"

definition route_to :: "string \<Rightarrow> string \<Rightarrow> gostr Route" where
  "route_to p b = \<lparr>match = str p, backend = str b\<rparr>"

definition lines_of :: "string list \<Rightarrow> reader" where
  "lines_of ls = \<lparr>scan_lines = map str ls, scan_err = None\<rparr>"

section \<open>The peekable byte source (bufio.Reader)\<close>

text \<open>
  The sniffer reads its connection through a \<open>peeker\<close>, in this repository a
  \<open>*bufio.Reader\<close>. The reader is modelled with the state \<open>Peek\<close> works on:
  \<open>buffered\<close> are the bytes already read from the connection and not yet consumed
  (\<open>b.buf[b.r:b.w]\<close>; a consuming operation would take bytes from its front),
  \<open>bufsize\<close> is the capacity \<open>len(b.buf)\<close>, and \<open>pending\<close> is the error \<open>b.err\<close> of an
  earlier read that has not been reported yet. The connection \<open>b.rd\<close> is what its
  following \<open>Read\<close> calls return, one \<open>Rd data err\<close> per call that has room for the data:
  the data may be empty and the error may be absent, present with data, or present
  alone (a timeout, say, after which later reads deliver again). A call with less room
  than data takes what fits, without the error, and leaves the rest for the next call.
  When the list is used up the connection returns \<open>io.EOF\<close> from then on. The bytes a
  client of the reader has still to see are \<open>unread\<close>.
\<close>

type_synonym byte = "8 word"

datatype read_result = Rd "byte list" "char error option"

fun delivered :: "read_result \<Rightarrow> byte list" where
  "delivered (Rd d e) = d"

fun failure :: "read_result \<Rightarrow> char error option" where
  "failure (Rd d e) = e"

record Reader =
  buffered :: "byte list"
  upstream :: "read_result list"
  bufsize :: nat
  pending :: "char error option"

definition unread :: "Reader \<Rightarrow> byte list" where
  "unread b = buffered b @ concat (map delivered (upstream b))"

text \<open>
  \<open>Read_into\<close> is the call \<open>b.rd.Read(b.buf[b.w:])\<close> of \<open>fill\<close> followed by \<open>b.w += n\<close>: it
  returns the count and the error of the call, and the reader with the bytes appended.
\<close>

definition Read_into :: "Reader \<Rightarrow> (nat \<times> char error option) \<times> Reader" where
  "Read_into b =
     (case upstream b of
        [] \<Rightarrow> ((0, Some EOF), b)
      | r # rest \<Rightarrow>
          (let d = delivered r;
               e = failure r;
               n = min (bufsize b - length (buffered b)) (length d)
           in if drop n d = []
              then ((n, e), b\<lparr>buffered := buffered b @ d, upstream := rest\<rparr>)
              else ((n, None),
                    b\<lparr>buffered := buffered b @ take n d,
                      upstream := Rd (drop n d) e # rest\<rparr>)))"

text \<open>
  \<open>fill\<close> reads new data, trying a limited number of times: a read that returns an error
  makes it the pending error and ends the attempt, a read that returns data ends it, and
  after \<open>maxConsecutiveEmptyReads\<close> reads without data or error the pending error becomes
  \<open>io.ErrNoProgress\<close>. \<open>fill_tries i\<close> is the loop with \<open>i\<close> tries left. \<open>Peek\<close> calls \<open>fill\<close>
  only while the buffer is not full, so the panic of \<open>fill\<close> on a full buffer is never
  reached and has no branch here.
\<close>

definition maxConsecutiveEmptyReads :: nat where
  "maxConsecutiveEmptyReads = 100"

fun fill_tries :: "nat \<Rightarrow> Reader \<Rightarrow> Reader" where
  "fill_tries 0 b = b\<lparr>pending := Some ErrNoProgress\<rparr>"
| "fill_tries (Suc i) b =
     (case Read_into b of
        ((n, Some e), b') \<Rightarrow> b'\<lparr>pending := Some e\<rparr>
      | ((n, None), b') \<Rightarrow> if 0 < n then b' else fill_tries i b')"

definition fill :: "Reader \<Rightarrow> Reader" where
  "fill b = fill_tries maxConsecutiveEmptyReads b"

text \<open>What bounds the loop of \<open>Peek\<close>: the reads the connection has still to return, with
  their bytes, and whether an error is pending.\<close>

definition reads_left :: "Reader \<Rightarrow> nat" where
  "reads_left b =
     2 * sum_list (map (\<lambda>r. Suc (length (delivered r))) (upstream b))
     + (case pending b of None \<Rightarrow> 1 | Some e \<Rightarrow> 0)"

text \<open>
  \<open>Peek n\<close>: fill while fewer than \<open>n\<close> bytes are buffered, the buffer is not full and no
  error is pending (\<open>fill_until\<close>). Then, if \<open>n\<close> exceeds the capacity the result is
  \<open>ErrBufferFull\<close>; if fewer than \<open>n\<close> bytes are buffered it is the pending error, which
  \<open>readErr\<close> clears, so that a later \<open>Peek\<close> reads from the connection again; otherwise it is
  the first \<open>n\<close> buffered bytes. The buffer keeps what was read.
\<close>

function fill_until :: "nat \<Rightarrow> Reader \<Rightarrow> Reader" where
  "fill_until n b =
     (if length (buffered b) < n \<and> length (buffered b) < bufsize b \<and> pending b = None
      then fill_until n (fill b)
      else b)"
  by pat_completeness auto
termination
proof (relation "measure (\<lambda>(n, b). reads_left b)")
  show "wf (measure (\<lambda>(n, b). reads_left b))"
    by simp
next
  fix n :: nat and b :: Reader
  assume a: "length (buffered b) < n \<and> length (buffered b) < bufsize b \<and> pending b = None"
  have step: "reads_left (snd (Read_into c)) \<le> reads_left c
      \<and> pending (snd (Read_into c)) = pending c
      \<and> bufsize (snd (Read_into c)) = bufsize c
      \<and> (fst (fst (Read_into c)) = 0 \<longrightarrow> buffered (snd (Read_into c)) = buffered c)
      \<and> (snd (fst (Read_into c)) = None \<and> length (buffered c) < bufsize c
            \<longrightarrow> reads_left (snd (Read_into c)) < reads_left c)" for c
  proof (cases "upstream c")
    case Nil
    then show ?thesis by (simp add: Read_into_def)
  next
    case (Cons r rest)
    obtain d e where r: "r = Rd d e" by (cases r)
    show ?thesis
    proof (cases "drop (min (bufsize c - length (buffered c)) (length d)) d = []")
      case True
      with Cons r show ?thesis
        by (auto simp: Read_into_def Let_def reads_left_def min_def split: if_splits)
    next
      case False
      with Cons r show ?thesis
        by (auto simp: Read_into_def Let_def reads_left_def min_def split: if_splits)
    qed
  qed
  have tries: "pending c = None \<Longrightarrow> length (buffered c) < bufsize c
      \<Longrightarrow> reads_left (fill_tries i c) < reads_left c" for i c
  proof (induction i arbitrary: c)
    case 0
    then show ?case by (simp add: reads_left_def)
  next
    case (Suc i)
    obtain k eo c' where ri: "Read_into c = ((k, eo), c')"
      by (cases "Read_into c") auto
    from step [of c] ri have s: "reads_left c' \<le> reads_left c" "pending c' = None"
      "bufsize c' = bufsize c" "k = 0 \<longrightarrow> buffered c' = buffered c"
      "eo = None \<longrightarrow> reads_left c' < reads_left c"
      using Suc.prems by simp_all
    show ?case
    proof (cases eo)
      case (Some e)
      with ri s(1,2) Suc.prems(1) show ?thesis
        by (simp add: reads_left_def)
    next
      case None
      show ?thesis
      proof (cases "0 < k")
        case True
        with ri None s(5) show ?thesis by simp
      next
        case False
        then have "reads_left (fill_tries i c') < reads_left c'"
          using Suc.IH [of c'] s(2,3,4) Suc.prems(2) by simp
        with ri None False s(1) show ?thesis by simp
      qed
    qed
  qed
  from a tries [of b] show "((n, fill b), (n, b)) \<in> measure (\<lambda>(n, b). reads_left b)"
    by (simp add: fill_def)
qed

definition readErr :: "Reader \<Rightarrow> char error option \<times> Reader" where
  "readErr b = (pending b, b\<lparr>pending := None\<rparr>)"

definition Peek :: "nat \<Rightarrow> Reader \<Rightarrow> (char error + byte list) \<times> Reader" where
  "Peek n b =
     (let b1 = fill_until n b in
      if bufsize b1 < n then (Inl ErrBufferFull, b1)
      else if length (buffered b1) < n
      then (case readErr b1 of
              (Some e, b2) \<Rightarrow> (Inl e, b2)
            | (None, b2) \<Rightarrow> (Inl ErrBufferFull, b2))
      else (Inr (take n (buffered b1)), b1))"

section \<open>Sniffing the ClientHello\<close>

text \<open>
  Of \<open>tls.ClientHelloInfo\<close> only the field \<open>ServerName\<close> is used. The TLS library is a
  parameter \<open>handshake\<close>: for the bytes served to \<open>tls.Server(...).Handshake()\<close> it gives
  the hello passed to the callback \<open>GetConfigForClient\<close>, or \<open>None\<close> when the handshake
  ends before calling it; \<open>helloInfo\<close> then stays the empty value it was initialised with.
  An index out of range is the outcome \<open>Panic\<close>, which no caller recovers from.
\<close>

record ClientHelloInfo =
  ServerName :: string

datatype 'a outcome = Panic | Return 'a

definition at :: "'a list \<Rightarrow> nat \<Rightarrow> 'a option" where
  "at xs i = (if i < length xs then Some (xs ! i) else None)"

definition recordHeaderLen :: nat where
  "recordHeaderLen = 5"

definition recordTypeHandshake :: byte where
  "recordTypeHandshake = 0x16"

definition ReadClientHelloInfo ::
  "(byte list \<Rightarrow> ClientHelloInfo option) \<Rightarrow> Reader
     \<Rightarrow> (char error + ClientHelloInfo) outcome \<times> Reader"
where
  "ReadClientHelloInfo handshake br =
     (case Peek recordHeaderLen br of
        (Inl err, br1) \<Rightarrow> (Return (Inl err), br1)
      | (Inr hdr, br1) \<Rightarrow>
          (case (at hdr 0, at hdr 3, at hdr 4) of
             (Some h0, Some h3, Some h4) \<Rightarrow>
               if h0 \<noteq> recordTypeHandshake then (Return (Inl NotTLS), br1)
               else
                 (let recLen = push_bit 8 (unat h3) OR unat h4 in
                  case Peek (recordHeaderLen + recLen) br1 of
                    (Inl err, br2) \<Rightarrow> (Return (Inl err), br2)
                  | (Inr helloBytes, br2) \<Rightarrow>
                      (case handshake helloBytes of
                         None \<Rightarrow> (Return (Inr \<lparr>ServerName = []\<rparr>), br2)
                       | Some hello \<Rightarrow> (Return (Inr hello), br2)))
           | _ \<Rightarrow> (Panic, br1)))"

definition clientHelloServerName ::
  "(byte list \<Rightarrow> ClientHelloInfo option) \<Rightarrow> Reader \<Rightarrow> string outcome \<times> Reader"
where
  "clientHelloServerName handshake br =
     (case ReadClientHelloInfo handshake br of
        (Panic, br') \<Rightarrow> (Panic, br')
      | (Return (Inl err), br') \<Rightarrow> (Return [], br')
      | (Return (Inr hello), br') \<Rightarrow> (Return (ServerName hello), br'))"

text \<open>
  The record length announced by a header. A \<open>Peek\<close> runs short when it ends in the branch
  that reports the read error: the capacity would do, but fewer bytes than asked for
  could be buffered. A sniff runs short when one of its two peeks does.
\<close>

definition recLen_of :: "byte list \<Rightarrow> nat" where
  "recLen_of hdr = push_bit 8 (unat (hdr ! 3)) OR unat (hdr ! 4)"

definition Peek_short :: "nat \<Rightarrow> Reader \<Rightarrow> bool" where
  "Peek_short n b \<longleftrightarrow> n \<le> bufsize b \<and> length (buffered (fill_until n b)) < n"


text \<open>A fresh reader with the default capacity on a connection delivering the given
  pieces, one that stalls for a hundred reads first, and a stand-in for the TLS library
  that reads the record payload as the name.\<close>

definition from_conn :: "byte list list \<Rightarrow> Reader" where
  "from_conn chunks =
     \<lparr>buffered = [], upstream = map (\<lambda>c. Rd c None) chunks, bufsize = 4096, pending = None\<rparr>"


definition payload_name :: "byte list \<Rightarrow> ClientHelloInfo option" where
  "payload_name bs =
     (if length bs \<le> 5 then None
      else Some \<lparr>ServerName = map (\<lambda>b. char_of (unat b)) (drop 5 bs)\<rparr>)"

section \<open>The ACME challenge resolver\<close>

text \<open>
  What a probe learns from the outside world is a parameter. \<open>Handshake tls dest sni\<close> is
  the result of the TLS client handshake with server name \<open>sni\<close> over the in-memory pipe
  whose other end is handled by the target \<open>dest\<close>: the error of \<open>client.Handshake()\<close>, or
  the peer certificates of the connection state. \<open>VerifyHostname tls cert sni\<close> is the
  result of \<open>cert.VerifyHostname(sni)\<close>, \<open>None\<close> for \<open>nil\<close>. \<open>tryACME\<close> returns the value it
  sends on the channel: \<open>None\<close> for the nil target, \<open>Some dest\<close> for the target itself.
\<close>

record ('t, 'cert) tls_client =
  Handshake :: "'t \<Rightarrow> string \<Rightarrow> char error + 'cert list"
  VerifyHostname :: "'cert \<Rightarrow> string \<Rightarrow> char error option"

definition tryACME :: "('t, 'cert) tls_client \<Rightarrow> 't \<Rightarrow> string \<Rightarrow> 't option" where
  "tryACME tls dest sni =
     (case Handshake tls dest sni of
        Inl err \<Rightarrow> None
      | Inr certs \<Rightarrow>
          (case certs of
             [] \<Rightarrow> None
           | cert0 # _ \<Rightarrow>
               (case VerifyHostname tls cert0 sni of
                  Some err \<Rightarrow> None
                | None \<Rightarrow> Some dest)))"

text \<open>
  \<open>acmeMatch.match\<close>. One attempt per target is started, each sends exactly one value
  on a channel with room for all, and the matcher receives up to as many values as
  there are targets, returning at the first that is not nil. \<open>arrival\<close> is the order in
  which the scheduler lets the values reach the channel; \<open>receive_first\<close> is the
  receiving loop. \<open>targets\<close> is \<open>m.cfg.acmeTargets\<close> at the time of the match.
\<close>

definition HasSuffix :: "string \<Rightarrow> string \<Rightarrow> bool" where
  "HasSuffix s suffix \<longleftrightarrow>
     length suffix \<le> length s \<and> drop (length s - length suffix) s = suffix"

fun receive_first :: "'t option list \<Rightarrow> 't option" where
  "receive_first [] = None"
| "receive_first (Some target # rest) = Some target"
| "receive_first (None # rest) = receive_first rest"

definition acmeMatch_match ::
  "(byte list \<Rightarrow> ClientHelloInfo option) \<Rightarrow> ('t, 'cert) tls_client
     \<Rightarrow> ('t option list \<Rightarrow> 't option list) \<Rightarrow> 't list \<Rightarrow> Reader
     \<Rightarrow> ('t option \<times> string) outcome \<times> Reader"
where
  "acmeMatch_match handshake tls arrival targets br =
     (case clientHelloServerName handshake br of
        (Panic, br') \<Rightarrow> (Panic, br')
      | (Return sni, br') \<Rightarrow>
          if \<not> HasSuffix sni ''.acme.invalid'' then (Return (None, []), br')
          else
            (case receive_first (arrival (map (\<lambda>target. tryACME tls target sni) targets)) of
               Some target \<Rightarrow> (Return (Some target, sni), br')
             | None \<Rightarrow> (Return (None, []), br')))"

text \<open>An example world: a certificate is the host name it is valid for, and each
  backend presents a fixed chain or fails the handshake. \<open>hello_record name\<close> is a record
  that \<open>payload_name\<close> reads as a hello for \<open>name\<close>.\<close>

definition name_certs :: "(nat \<Rightarrow> string list option) \<Rightarrow> (nat, string) tls_client" where
  "name_certs chain_of =
     \<lparr>Handshake = (\<lambda>dest sni. case chain_of dest of None \<Rightarrow> Inl EOF | Some certs \<Rightarrow> Inr certs),
      VerifyHostname = (\<lambda>cert sni. if cert = sni then None else Some (LibraryError cert))\<rparr>"

definition three_backends :: "nat \<Rightarrow> string list option" where
  "three_backends dest =
     (if dest = 1 then Some [''x.acme.invalid'', ''other'']
      else if dest = 2 then Some []
      else if dest = 3 then Some [''other'', ''x.acme.invalid'']
      else None)"

definition hello_record :: "string \<Rightarrow> byte list" where
  "hello_record name = [0x16, 3, 1, 0, of_nat (length name)] @ map of_char name"

section \<open>The listener route tables (Proxy, config)\<close>

text \<open>
  A route id is a \<open>uuid.UUID\<close>, sixteen bytes. \<open>uuid.New()\<close> is outside the repository:
  the functions that call it take the id it returns as their argument \<open>newId\<close>.
  Targets are an arbitrary type \<open>'t\<close>; \<open>'t option\<close> is a \<open>Target\<close> that may be nil.
\<close>

type_synonym uuid = "128 word"

type_synonym Matcher = "string \<Rightarrow> bool"

type_synonym 't SNITargetFunc = "string \<Rightarrow> 't option \<times> bool"

type_synonym 't DynamicTarget = "string \<Rightarrow> char error + 't option"

text \<open>
  The values stored as routes: \<open>sniMatch{matcher, target, targetFunc}\<close>,
  \<open>&acmeMatch{cfg}\<close> and \<open>dynamicSNIMatch{dynMatcher}\<close>. The pointer \<open>cfg\<close> of an
  \<open>acmeMatch\<close> is the address of a listener's \<open>config\<close>; configs live in the proxy's map
  under their listening address, which serves as the pointer.
\<close>

datatype 't rule =
    SniMatch "Matcher option" "'t option" "'t SNITargetFunc option"
  | AcmeMatch string
  | DynamicSNIMatch "'t DynamicTarget option"

text \<open>The negotiation hooks a listener can carry, by the function that builds them.\<close>

datatype negotiator = NegotiateSMTPStartTLS string | NegotiateIMAPStartTLS

text \<open>
  Modelled from the spec: the declarations of a route, of \<open>config\<close> and of \<open>Proxy\<close>, which
  are not among the source files. A route has an identity and a matcher; a listener's
  table holds the ordered sequence of its routes (insertion order, never reordered), the
  ACME-eligible targets, the flag that disables the ACME search and the optional
  negotiation hook; the proxy owns one table per listening address. The field of the
  routes is written \<open>routes'\<close>, apart from the field \<open>routes\<close> of the static \<open>Config\<close>.
\<close>

record 't route =
  route_id :: uuid
  route_rule :: "'t rule"

record 't config =
  routes' :: "'t route list"
  acmeTargets :: "'t list"
  stopACME :: bool
  negotiateFunc :: "negotiator option"

record 't Proxy =
  configs :: "string \<rightharpoonup> 't config"

text \<open>The zero value \<open>&config{}\<close>.\<close>

definition zero_config :: "'t config" where
  "zero_config = \<lparr>routes' = [], acmeTargets = [], stopACME = False, negotiateFunc = None\<rparr>"

text \<open>
  Modelled from the spec: \<open>configFor\<close>, which is not among the source files. It gives
  the table of a listening address, creating the empty table at first use. The pointer it
  returns is the address \<open>ipPort\<close> itself: \<open>config_at\<close> reads through it and \<open>store\<close>
  writes through it.
\<close>

definition configFor :: "'t Proxy \<Rightarrow> string \<Rightarrow> 't Proxy" where
  "configFor p ipPort =
     (case configs p ipPort of
        None \<Rightarrow> p\<lparr>configs := (configs p)(ipPort \<mapsto> zero_config)\<rparr>
      | Some cfg \<Rightarrow> p)"

definition config_at :: "'t Proxy \<Rightarrow> string \<Rightarrow> 't config" where
  "config_at p ipPort = (case configs p ipPort of None \<Rightarrow> zero_config | Some cfg \<Rightarrow> cfg)"

definition store :: "'t Proxy \<Rightarrow> string \<Rightarrow> 't config \<Rightarrow> 't Proxy" where
  "store p ipPort cfg = p\<lparr>configs := (configs p)(ipPort \<mapsto> cfg)\<rparr>"

text \<open>
  Modelled from the spec: \<open>addRouteWithId\<close>, which is not among the source files. It
  appends a route with the given id to the table of \<open>ipPort\<close>.
\<close>

definition addRouteWithId :: "'t Proxy \<Rightarrow> string \<Rightarrow> 't rule \<Rightarrow> uuid \<Rightarrow> 't Proxy" where
  "addRouteWithId p ipPort r routeId =
     (let p1 = configFor p ipPort;
          cfg = config_at p1 ipPort
      in store p1 ipPort (cfg\<lparr>routes' := routes' cfg @ [\<lparr>route_id = routeId, route_rule = r\<rparr>]\<rparr>))"

text \<open>
  Modelled from the spec: \<open>addRoute\<close>, which is not among the source files. It appends
  a route under a new id and returns the id.
\<close>

definition addRoute :: "'t Proxy \<Rightarrow> uuid \<Rightarrow> string \<Rightarrow> 't rule \<Rightarrow> 't Proxy \<times> uuid" where
  "addRoute p newId ipPort r = (addRouteWithId p ipPort r newId, newId)"

text \<open>
  Modelled from the spec: \<open>equals\<close>, which is not among the source files: the matcher
  of static equality with a fixed host name.
\<close>

definition equals :: "string \<Rightarrow> Matcher" where
  "equals want = (\<lambda>got. want = got)"

text \<open>
  \<open>AddSNIMatchRoute\<close>, from the source: one id is drawn; unless the ACME search is
  stopped, the ACME pseudo-route is registered under that id if no target is eligible
  yet, and \<open>dest\<close> becomes eligible; then the SNI route is registered under the same id,
  which is returned.
\<close>

definition AddSNIMatchRoute ::
  "'t Proxy \<Rightarrow> uuid \<Rightarrow> string \<Rightarrow> Matcher \<Rightarrow> 't \<Rightarrow> 't Proxy \<times> uuid"
where
  "AddSNIMatchRoute p newId ipPort matcher dest =
     (let routeId = newId;
          p1 = configFor p ipPort;
          p2 = (if \<not> stopACME (config_at p1 ipPort)
                then
                  (let p' = (if length (acmeTargets (config_at p1 ipPort)) = 0
                             then addRouteWithId p1 ipPort (AcmeMatch ipPort) routeId
                             else p1);
                       cfg = config_at p' ipPort
                   in store p' ipPort (cfg\<lparr>acmeTargets := acmeTargets cfg @ [dest]\<rparr>))
                else p1)
      in (addRouteWithId p2 ipPort (SniMatch (Some matcher) (Some dest) None) routeId, routeId))"

definition AddSNIRoute ::
  "'t Proxy \<Rightarrow> uuid \<Rightarrow> string \<Rightarrow> string \<Rightarrow> 't \<Rightarrow> 't Proxy \<times> uuid"
where
  "AddSNIRoute p newId ipPort sni dest = AddSNIMatchRoute p newId ipPort (equals sni) dest"

definition AddSNIDynamicRoute ::
  "'t Proxy \<Rightarrow> uuid \<Rightarrow> string \<Rightarrow> 't DynamicTarget option \<Rightarrow> 't Proxy \<times> uuid"
where
  "AddSNIDynamicRoute p newId ipPort targetLookup =
     addRoute p newId ipPort (DynamicSNIMatch targetLookup)"

definition AddSNIDynamicSMTPRoute ::
  "'t Proxy \<Rightarrow> uuid \<Rightarrow> string \<Rightarrow> string \<Rightarrow> 't DynamicTarget option \<Rightarrow> 't Proxy \<times> uuid"
where
  "AddSNIDynamicSMTPRoute p newId ipPort serverName targetLookup =
     (let p1 = configFor p ipPort;
          cfg = config_at p1 ipPort;
          p2 = store p1 ipPort (cfg\<lparr>negotiateFunc := Some (NegotiateSMTPStartTLS serverName)\<rparr>)
      in addRoute p2 newId ipPort (DynamicSNIMatch targetLookup))"

definition AddSNIRouteFunc ::
  "'t Proxy \<Rightarrow> uuid \<Rightarrow> string \<Rightarrow> 't SNITargetFunc option \<Rightarrow> 't Proxy \<times> uuid"
where
  "AddSNIRouteFunc p newId ipPort fn = addRoute p newId ipPort (SniMatch None None fn)"

text \<open>\<open>AddStopACMESearch\<close>, from the second copy of the file in the sources.\<close>

definition AddStopACMESearch :: "'t Proxy \<Rightarrow> string \<Rightarrow> 't Proxy" where
  "AddStopACMESearch p ipPort =
     (let p1 = configFor p ipPort;
          cfg = config_at p1 ipPort
      in store p1 ipPort (cfg\<lparr>stopACME := True\<rparr>))"

text \<open>
  The set-up phase of a proxy is a sequence of these calls, each with the id that
  \<open>uuid.New()\<close> gives during it (\<open>AddStopACMESearch\<close> draws none and ignores it).
\<close>

datatype 't call =
    CallAddSNIRoute string string 't
  | CallAddSNIMatchRoute string Matcher 't
  | CallAddSNIDynamicRoute string "'t DynamicTarget option"
  | CallAddSNIDynamicSMTPRoute string string "'t DynamicTarget option"
  | CallAddSNIRouteFunc string "'t SNITargetFunc option"
  | CallAddStopACMESearch string

fun perform :: "'t Proxy \<Rightarrow> uuid \<Rightarrow> 't call \<Rightarrow> 't Proxy" where
  "perform p newId (CallAddSNIRoute ipPort sni dest) = fst (AddSNIRoute p newId ipPort sni dest)"
| "perform p newId (CallAddSNIMatchRoute ipPort matcher dest) =
     fst (AddSNIMatchRoute p newId ipPort matcher dest)"
| "perform p newId (CallAddSNIDynamicRoute ipPort targetLookup) =
     fst (AddSNIDynamicRoute p newId ipPort targetLookup)"
| "perform p newId (CallAddSNIDynamicSMTPRoute ipPort serverName targetLookup) =
     fst (AddSNIDynamicSMTPRoute p newId ipPort serverName targetLookup)"
| "perform p newId (CallAddSNIRouteFunc ipPort fn) = fst (AddSNIRouteFunc p newId ipPort fn)"
| "perform p newId (CallAddStopACMESearch ipPort) = AddStopACMESearch p ipPort"

fun perform_all :: "'t Proxy \<Rightarrow> (uuid \<times> 't call) list \<Rightarrow> 't Proxy" where
  "perform_all p [] = p"
| "perform_all p ((newId, c) # cs) = perform_all (perform p newId c) cs"

text \<open>The ACME pseudo-routes of a table, its other routes, and the ids of routes.\<close>

fun is_acme :: "'t route \<Rightarrow> bool" where
  "is_acme r = (case route_rule r of AcmeMatch cfg \<Rightarrow> True | _ \<Rightarrow> False)"

definition acme_routes :: "'t config \<Rightarrow> 't route list" where
  "acme_routes cfg = filter is_acme (routes' cfg)"

definition plain_routes :: "'t config \<Rightarrow> 't route list" where
  "plain_routes cfg = filter (\<lambda>r. \<not> is_acme r) (routes' cfg)"

definition new_Proxy :: "'t Proxy" where
  "new_Proxy = \<lparr>configs = Map.empty\<rparr>"

text \<open>The targets a sequence of calls makes ACME-eligible on listener \<open>k\<close>: those of
  the SNI routes added to \<open>k\<close> while its ACME search is not stopped.\<close>

fun acme_dests :: "bool \<Rightarrow> string \<Rightarrow> 't call list \<Rightarrow> 't list" where
  "acme_dests stopped k [] = []"
| "acme_dests stopped k (CallAddSNIRoute ipPort sni dest # cs) =
     (if ipPort = k \<and> \<not> stopped then dest # acme_dests stopped k cs
      else acme_dests stopped k cs)"
| "acme_dests stopped k (CallAddSNIMatchRoute ipPort matcher dest # cs) =
     (if ipPort = k \<and> \<not> stopped then dest # acme_dests stopped k cs
      else acme_dests stopped k cs)"
| "acme_dests stopped k (CallAddStopACMESearch ipPort # cs) =
     acme_dests (stopped \<or> ipPort = k) k cs"
| "acme_dests stopped k (c # cs) = acme_dests stopped k cs"

fun ipPort_of :: "'t call \<Rightarrow> string" where
  "ipPort_of (CallAddSNIRoute ipPort sni dest) = ipPort"
| "ipPort_of (CallAddSNIMatchRoute ipPort matcher dest) = ipPort"
| "ipPort_of (CallAddSNIDynamicRoute ipPort targetLookup) = ipPort"
| "ipPort_of (CallAddSNIDynamicSMTPRoute ipPort serverName targetLookup) = ipPort"
| "ipPort_of (CallAddSNIRouteFunc ipPort fn) = ipPort"
| "ipPort_of (CallAddStopACMESearch ipPort) = ipPort"

fun adds_route :: "'t call \<Rightarrow> bool" where
  "adds_route (CallAddStopACMESearch ipPort) = False"
| "adds_route c = True"

definition ids_of :: "'t route list \<Rightarrow> uuid list" where
  "ids_of rs = map route_id rs"

text \<open>An example set-up: two SNI routes on \<open>:443\<close>, then the ACME search stopped, then a
  third SNI route.\<close>

definition one_route :: "nat Proxy" where
  "one_route = fst (AddSNIMatchRoute new_Proxy 7 '':443'' (equals ''a.test'') 1)"

definition stopped_proxy :: "nat Proxy" where
  "stopped_proxy = AddStopACMESearch new_Proxy '':443''"

definition example_calls :: "(uuid \<times> nat call) list" where
  "example_calls =
     [(7, CallAddSNIRoute '':443'' ''a.test'' 1),
      (8, CallAddSNIMatchRoute '':443'' (equals ''b.test'') 2),
      (9, CallAddStopACMESearch '':443''),
      (10, CallAddSNIRoute '':443'' ''c.test'' 3),
      (11, CallAddSNIRouteFunc '':443'' None)]"

text \<open>The invariant that ties the ACME pseudo-routes of listener \<open>k\<close> to its eligible
  targets.\<close>

definition acme_inv :: "string \<Rightarrow> 't config \<Rightarrow> bool" where
  "acme_inv k cfg \<longleftrightarrow>
     length (acme_routes cfg) = (if acmeTargets cfg = [] then 0 else 1)
     \<and> list_all (\<lambda>r. route_rule r = AcmeMatch k) (acme_routes cfg)"

section \<open>The SMTP STARTTLS negotiator: the greeting\<close>

text \<open>
  \<open>fmt.Sscanf(l, "EHLO %s", &clientName)\<close>, step by step as the scanner of package \<open>fmt\<close>
  runs this format over the runes of \<open>l\<close>; every function returns the input left to
  read, or the error that ends the scan.
  \<^item> \<open>advance_literal\<close>: the letters of the format must be the next runes of the input.
  \<^item> \<open>advance_space\<close>: the space of the format takes one or more spaces of the input
    that are not newlines, or the end of the input.
  \<^item> \<open>SkipSpace\<close>: spaces are skipped up to the next other rune; a newline is an error.
    It is called before the verb, by \<open>convertString\<close> and by \<open>token\<close>.
  \<^item> \<open>convertString\<close>: for \<open>%s\<close>, the input must not be at its end, and the value is
    the next word: the runes up to the next space or the end.
  Input after the last verb is not looked at.
\<close>

definition newline :: rune where
  "newline = 0x0A"

fun advance_literal :: "gostr \<Rightarrow> gostr \<Rightarrow> rune error + gostr" where
  "advance_literal [] inp = Inr inp"
| "advance_literal (f # fs) [] = Inl UnexpectedEOF"
| "advance_literal (f # fs) (r # rs) =
     (if f \<noteq> r then Inl InputDoesNotMatchFormat else advance_literal fs rs)"

definition advance_space :: "gostr \<Rightarrow> rune error + gostr" where
  "advance_space inp =
     (case inp of
        [] \<Rightarrow> Inr []
      | r # rs \<Rightarrow>
          if \<not> IsSpace r then Inl ExpectedSpace
          else if r = newline then Inl NewlineInInput
          else Inr (dropWhile (\<lambda>c. IsSpace c \<and> c \<noteq> newline) rs))"

fun SkipSpace :: "gostr \<Rightarrow> rune error + gostr" where
  "SkipSpace [] = Inr []"
| "SkipSpace (r # rs) =
     (if r = newline then Inl UnexpectedNewline
      else if \<not> IsSpace r then Inr (r # rs)
      else SkipSpace rs)"

definition token :: "gostr \<Rightarrow> rune error + gostr" where
  "token inp =
     (case SkipSpace inp of
        Inl err \<Rightarrow> Inl err
      | Inr rest \<Rightarrow> Inr (takeWhile (\<lambda>c. \<not> IsSpace c) rest))"

definition convertString :: "gostr \<Rightarrow> rune error + gostr" where
  "convertString inp =
     (case SkipSpace inp of
        Inl err \<Rightarrow> Inl err
      | Inr rest \<Rightarrow> if rest = [] then Inl EOF else token rest)"

text \<open>The result of \<open>Sscanf\<close>: the number of values stored, the error (\<open>None\<close> for
  \<open>nil\<close>) and the string stored in \<open>clientName\<close>, empty when none was.\<close>

definition Sscanf_EHLO :: "gostr \<Rightarrow> nat \<times> rune error option \<times> gostr" where
  "Sscanf_EHLO l =
     (case advance_literal (str ''EHLO'') l of
        Inl err \<Rightarrow> (0, Some err, [])
      | Inr r1 \<Rightarrow>
          (case advance_space r1 of
             Inl err \<Rightarrow> (0, Some err, [])
           | Inr r2 \<Rightarrow>
               (case SkipSpace r2 of
                  Inl err \<Rightarrow> (0, Some err, [])
                | Inr r3 \<Rightarrow>
                    (case convertString r3 of
                       Inl err \<Rightarrow> (0, Some err, [])
                     | Inr clientName \<Rightarrow> (1, None, clientName)))))"

text \<open>
  \<open>greetSMTP\<close> as in \<open>starttls_smtp.go\<close>: the greeting is written, one line is read and
  scanned, and the client name or the error is returned. \<open>greetSMTP'\<close> is the second copy
  of the function in the sources, which also checks the count returned by \<open>Sscanf\<close>.
\<close>

definition greetSMTP :: "rune conn \<Rightarrow> gostr \<Rightarrow> (rune error + gostr) \<times> rune conn" where
  "greetSMTP c serverName =
     (let c1 = PrintfLine c (str ''220 '' @ serverName @ str '' Service ready'') in
      case ReadLine c1 of
        (Inl e, c2) \<Rightarrow> (Inl e, c2)
      | (Inr l, c2) \<Rightarrow>
          (case Sscanf_EHLO l of
             (n, Some e, clientName) \<Rightarrow> (Inl e, c2)
           | (n, None, clientName) \<Rightarrow> (Inr clientName, c2)))"

definition greetSMTP' :: "rune conn \<Rightarrow> gostr \<Rightarrow> (rune error + gostr) \<times> rune conn" where
  "greetSMTP' c serverName =
     (let c1 = PrintfLine c (str ''220 '' @ serverName @ str '' Service ready'') in
      case ReadLine c1 of
        (Inl e, c2) \<Rightarrow> (Inl e, c2)
      | (Inr l, c2) \<Rightarrow>
          (case Sscanf_EHLO l of
             (n, Some e, clientName) \<Rightarrow> (Inl e, c2)
           | (n, None, clientName) \<Rightarrow>
               if n \<noteq> 1 then (Inl CouldNotReadClientName, c2)
               else (Inr clientName, c2)))"

text \<open>A client that sends the given lines.\<close>

definition smtp_client :: "string list \<Rightarrow> rune conn" where
  "smtp_client ls = \<lparr>incoming = map str ls, written = [], closed = False\<rparr>"

section \<open>Properties of the IMAP negotiator\<close>

lemma Cut_no_sep: "sep \<notin> set s \<Longrightarrow> Cut s sep = (s, [], False)"
  by (simp add: Cut_def)

lemma Cut_sep:
  "sep \<notin> set tag \<Longrightarrow> Cut (tag @ sep # rest) sep = (tag, rest, True)"
  by (induction tag) (auto simp: Cut_def)

text \<open>
  C4, as the specification states it, fails on the second example: the command is the
  whole text after the first space, so for the line \<open>a1 LOGIN user pass\<close> the reply
  echoes \<open>LOGIN user pass\<close>, and the line \<open>a1 LOGIN Unsupported command\<close> is never
  written.
\<close>

theorem imap_login_reply_counterexample:
  "''a1 LOGIN Unsupported command''
     \<notin> set (written (snd (negotiateIMAPStartTLS (imap_client ''a1 LOGIN user pass''))))"
  by (simp add: negotiateIMAPStartTLS_def negotiateIMAPTLS_def imap_client_def
      ReadLine_def PrintfLine_def Close_def Cut_def imap_banner_def)

text \<open>
  C4 (amended). The negotiator writes the capability banner first. A line
  \<open>tag STARTTLS\<close> (no space in the tag) is answered by exactly
  \<open>tag OK Begin TLS negotiation now\<close> and the negotiation succeeds; a line
  \<open>tag cmd\<close> with any other text \<open>cmd\<close> after the first space is answered by exactly
  \<open>tag cmd Unsupported command\<close>, the connection is closed and the negotiation fails
  (so \<open>a1 LOGIN user pass\<close> is answered by \<open>a1 LOGIN user pass Unsupported command\<close>);
  a line without a space gets no reply after the banner and the negotiation fails.
\<close>

theorem imap_negotiate_cases:
  fixes tag cmd l :: string
  shows
  "(CHR '' '' \<notin> set tag \<longrightarrow>
      negotiateIMAPStartTLS (imap_client (tag @ '' STARTTLS''))
        = (True, \<lparr>incoming = [],
                  written = [imap_banner, tag @ '' OK Begin TLS negotiation now''],
                  closed = False\<rparr>))
   \<and> (CHR '' '' \<notin> set tag \<and> cmd \<noteq> ''STARTTLS'' \<longrightarrow>
      negotiateIMAPStartTLS (imap_client (tag @ '' '' @ cmd))
        = (False, \<lparr>incoming = [],
                   written = [imap_banner, tag @ '' '' @ cmd @ '' Unsupported command''],
                   closed = True\<rparr>))
   \<and> (CHR '' '' \<notin> set l \<longrightarrow>
      negotiateIMAPStartTLS (imap_client l)
        = (False, \<lparr>incoming = [], written = [imap_banner], closed = True\<rparr>))
   \<and> negotiateIMAPStartTLS (imap_client ''a1 LOGIN user pass'')
        = (False, \<lparr>incoming = [],
                   written = [imap_banner, ''a1 LOGIN user pass Unsupported command''],
                   closed = True\<rparr>)"
proof (intro conjI impI)
  assume "CHR '' '' \<notin> set tag"
  then have "Cut (tag @ '' STARTTLS'') CHR '' '' = (tag, ''STARTTLS'', True)"
    using Cut_sep [of "CHR '' ''" tag "''STARTTLS''"] by simp
  then show "negotiateIMAPStartTLS (imap_client (tag @ '' STARTTLS''))
        = (True, \<lparr>incoming = [],
                  written = [imap_banner, tag @ '' OK Begin TLS negotiation now''],
                  closed = False\<rparr>)"
    by (simp add: negotiateIMAPStartTLS_def negotiateIMAPTLS_def imap_client_def
        ReadLine_def PrintfLine_def)
next
  assume "CHR '' '' \<notin> set tag \<and> cmd \<noteq> ''STARTTLS''"
  then have "Cut (tag @ '' '' @ cmd) CHR '' '' = (tag, cmd, True)" and "cmd \<noteq> ''STARTTLS''"
    using Cut_sep [of "CHR '' ''" tag cmd] by simp_all
  then show "negotiateIMAPStartTLS (imap_client (tag @ '' '' @ cmd))
        = (False, \<lparr>incoming = [],
                   written = [imap_banner, tag @ '' '' @ cmd @ '' Unsupported command''],
                   closed = True\<rparr>)"
    by (simp add: negotiateIMAPStartTLS_def negotiateIMAPTLS_def imap_client_def
        ReadLine_def PrintfLine_def Close_def)
next
  assume "CHR '' '' \<notin> set l"
  then have "Cut l CHR '' '' = (l, [], False)"
    by (rule Cut_no_sep)
  then show "negotiateIMAPStartTLS (imap_client l)
        = (False, \<lparr>incoming = [], written = [imap_banner], closed = True\<rparr>)"
    by (simp add: negotiateIMAPStartTLS_def negotiateIMAPTLS_def imap_client_def
        ReadLine_def PrintfLine_def Close_def)
next
  show "negotiateIMAPStartTLS (imap_client ''a1 LOGIN user pass'')
        = (False, \<lparr>incoming = [],
                   written = [imap_banner, ''a1 LOGIN user pass Unsupported command''],
                   closed = True\<rparr>)"
    by (simp add: negotiateIMAPStartTLS_def negotiateIMAPTLS_def imap_client_def
        ReadLine_def PrintfLine_def Close_def Cut_def)
qed

theorem imap_negotiate_cases_witness:
  "CHR '' '' \<notin> set ''a1'' \<and> ''LOGIN user pass'' \<noteq> ''STARTTLS'' \<and> CHR '' '' \<notin> set ''NOOP''
   \<and> negotiateIMAPStartTLS (imap_client ''a1 STARTTLS'')
        = (True, \<lparr>incoming = [],
                  written = [imap_banner, ''a1 OK Begin TLS negotiation now''],
                  closed = False\<rparr>)
   \<and> negotiateIMAPStartTLS (imap_client ''a1 LOGIN user pass'')
        = (False, \<lparr>incoming = [],
                   written = [imap_banner, ''a1 LOGIN user pass Unsupported command''],
                   closed = True\<rparr>)
   \<and> negotiateIMAPStartTLS (imap_client ''NOOP'')
        = (False, \<lparr>incoming = [], written = [imap_banner], closed = True\<rparr>)"
  using imap_negotiate_cases [of "''a1''" "''LOGIN user pass''" "''NOOP''"]
  by simp

section \<open>Properties of the static routing configuration\<close>

lemma read_lines_append:
  "read_lines d (xs @ ys) rts =
     (case read_lines d xs rts of Inl e \<Rightarrow> Inl e | Inr rts' \<Rightarrow> read_lines d ys rts')"
  by (induction xs arbitrary: rts) (auto split: list.splits sum.splits)

lemma read_lines_one_field:
  "l \<in> set ls \<Longrightarrow> length (Fields l) = 1 \<Longrightarrow> \<exists>e. read_lines d ls rts = Inl e"
  by (induction ls arbitrary: rts) (auto split: list.splits sum.splits)

lemma read_lines_many_fields:
  "l \<in> set ls \<Longrightarrow> 3 \<le> length (Fields l) \<Longrightarrow> \<exists>e. read_lines d ls rts = Inl e"
  by (induction ls arbitrary: rts) (auto split: list.splits sum.splits)

lemma read_lines_Inr:
  "read_lines d ls rts = Inr rts' \<Longrightarrow>
     (\<forall>l \<in> set ls. Fields l = [] \<or> length (Fields l) = 2)
     \<and> map (\<lambda>r. (Inr (match r), backend r)) rts'
       = map (\<lambda>r. (Inr (match r), backend r)) rts
         @ map (\<lambda>l. (d (Fields l ! 0), Fields l ! 1)) (filter (\<lambda>l. Fields l \<noteq> []) ls)"
proof (induction ls arbitrary: rts)
  case Nil
  then show ?case by simp
next
  case (Cons t ts)
  show ?case
  proof (cases "Fields t")
    case Nil
    with Cons show ?thesis by simp
  next
    case (Cons f0 fs)
    note outer = this
    show ?thesis
    proof (cases fs)
      case Nil
      with outer Cons.prems show ?thesis by simp
    next
      case (Cons f1 gs)
      with outer Cons.prems obtain re where g: "gs = []" and re: "d f0 = Inr re"
        and rest: "read_lines d ts (rts @ [\<lparr>match = re, backend = f1\<rparr>]) = Inr rts'"
        by (auto split: list.splits sum.splits)
      from Cons.IH [OF rest] outer Cons g re show ?thesis by simp
    qed
  qed
qed

lemma fields_from_space:
  "IsSpace c \<Longrightarrow> fields_from cur (a @ c # b) = fields_from cur a @ fields_from [] b"
  by (induction a arbitrary: cur) auto

lemma fields_from_word:
  "list_all (\<lambda>r. \<not> IsSpace r) w \<Longrightarrow> cur @ w \<noteq> [] \<Longrightarrow> fields_from cur w = [cur @ w]"
  by (induction w arbitrary: cur) auto

lemma fields_from_blank:
  "fields_from cur s = [] \<longleftrightarrow> cur = [] \<and> list_all IsSpace s"
  by (induction s arbitrary: cur) auto

lemma read_lines_well_formed:
  "\<forall>t \<in> set ls. Fields t = [] \<or> (\<exists>f0 f1 re. Fields t = [f0, f1] \<and> d f0 = Inr re) \<Longrightarrow>
     read_lines d ls rts =
       Inr (rts @ map (\<lambda>t. \<lparr>match = projr (d (Fields t ! 0)), backend = Fields t ! 1\<rparr>)
                    (filter (\<lambda>t. Fields t \<noteq> []) ls))"
proof (induction ls arbitrary: rts)
  case Nil
  then show ?case by simp
next
  case (Cons t ts)
  then have rest: "\<forall>t \<in> set ts. Fields t = [] \<or> (\<exists>f0 f1 re. Fields t = [f0, f1] \<and> d f0 = Inr re)"
    by simp
  from Cons.prems consider "Fields t = []" | f0 f1 re where "Fields t = [f0, f1]" "d f0 = Inr re"
    by auto
  then show ?case
  proof cases
    case 1
    then show ?thesis using Cons.IH [OF rest] by simp
  next
    case 2
    then show ?thesis using Cons.IH [OF rest] by simp
  qed
qed

lemma match_routes_first:
  "\<forall>q \<in> set pre. \<not> MS (match q) h \<Longrightarrow> MS (match r) h \<Longrightarrow>
     match_routes MS (pre @ r # post) h = backend r"
  by (induction pre) auto

lemma match_routes_none:
  "\<forall>q \<in> set rs. \<not> MS (match q) h \<Longrightarrow> match_routes MS rs h = []"
  by (induction rs) auto

text \<open>
  C8. Blank lines are skipped: removing a line without fields from the input does not
  change what \<open>Read\<close> does. The fields of a line are its white-space separated words: a
  line has no field exactly when it consists of white space only, a non-empty word
  without white space is its own single field, and the fields of a line are those before
  a white-space character followed by those after it. A line with exactly one field makes \<open>Read\<close> return an
  error, and so does a line with three or more fields. When \<open>Read\<close> succeeds, every
  line had no field or exactly two, and the new routes are the two-field lines in file
  order, each with its first field compiled as pattern and its second as backend.
  And \<open>Read\<close> does succeed on every input whose lines have no field or two fields with a
  pattern that compiles, and whose scan ends without error: it returns no error and
  replaces the routes by those of the two-field lines, in file order.
  \<open>Match\<close> returns the backend of the first route in order whose pattern matches, also
  when later routes match too, and the empty string when no pattern matches.
\<close>

theorem config_read_match:
  fixes dnsRegex :: "gostr \<Rightarrow> rune error + 're"
  shows
  "(Fields b = [] \<longrightarrow>
      Read dnsRegex c \<lparr>scan_lines = pre @ b # post, scan_err = se\<rparr>
        = Read dnsRegex c \<lparr>scan_lines = pre @ post, scan_err = se\<rparr>)
   \<and> (Fields s = [] \<longleftrightarrow> list_all IsSpace s)
   \<and> (w \<noteq> [] \<and> list_all (\<lambda>x. \<not> IsSpace x) w \<longrightarrow> Fields w = [w])
   \<and> (IsSpace sp \<longrightarrow> Fields (s1 @ sp # s2) = Fields s1 @ Fields s2)
   \<and> (l1 \<in> set (scan_lines r1) \<and> length (Fields l1) = 1 \<longrightarrow>
        (\<exists>e. Read dnsRegex c r1 = (Some e, c)))
   \<and> (l3 \<in> set (scan_lines r3) \<and> 3 \<le> length (Fields l3) \<longrightarrow>
        (\<exists>e. Read dnsRegex c r3 = (Some e, c)))
   \<and> (fst (Read dnsRegex c r) = None \<longrightarrow>
        (\<forall>t \<in> set (scan_lines r). Fields t = [] \<or> length (Fields t) = 2)
        \<and> map (\<lambda>q. (Inr (match q), backend q)) (routes (snd (Read dnsRegex c r)))
          = map (\<lambda>t. (dnsRegex (Fields t ! 0), Fields t ! 1))
              (filter (\<lambda>t. Fields t \<noteq> []) (scan_lines r)))
   \<and> ((\<forall>t \<in> set (scan_lines rw).
          Fields t = [] \<or> (\<exists>f0 f1 re. Fields t = [f0, f1] \<and> dnsRegex f0 = Inr re))
        \<and> scan_err rw = None \<longrightarrow>
        Read dnsRegex c rw =
          (None, c\<lparr>routes :=
             map (\<lambda>t. \<lparr>match = projr (dnsRegex (Fields t ! 0)), backend = Fields t ! 1\<rparr>)
               (filter (\<lambda>t. Fields t \<noteq> []) (scan_lines rw))\<rparr>))
   \<and> ((\<forall>q \<in> set rs1. \<not> MatchString (match q) h) \<and> MatchString (match rt) h \<longrightarrow>
        Match MatchString \<lparr>routes = rs1 @ rt # rs2\<rparr> h = backend rt)
   \<and> ((\<forall>q \<in> set (routes cfg). \<not> MatchString (match q) h') \<longrightarrow>
        Match MatchString cfg h' = [])"
proof (intro conjI impI)
  assume "Fields b = []"
  then have "read_lines dnsRegex (pre @ b # post) [] = read_lines dnsRegex (pre @ post) []"
    by (simp add: read_lines_append split: sum.splits)
  then show "Read dnsRegex c \<lparr>scan_lines = pre @ b # post, scan_err = se\<rparr>
        = Read dnsRegex c \<lparr>scan_lines = pre @ post, scan_err = se\<rparr>"
    by (simp add: Read_def split: sum.splits)
next
  show "Fields s = [] \<longleftrightarrow> list_all IsSpace s"
    by (simp add: Fields_def fields_from_blank)
next
  assume "w \<noteq> [] \<and> list_all (\<lambda>x. \<not> IsSpace x) w"
  then show "Fields w = [w]"
    using fields_from_word [of w "[]"] by (simp add: Fields_def)
next
  assume "IsSpace sp"
  then show "Fields (s1 @ sp # s2) = Fields s1 @ Fields s2"
    by (simp add: Fields_def fields_from_space)
next
  assume "l1 \<in> set (scan_lines r1) \<and> length (Fields l1) = 1"
  then obtain e where "read_lines dnsRegex (scan_lines r1) [] = Inl e"
    using read_lines_one_field by blast
  then show "\<exists>e. Read dnsRegex c r1 = (Some e, c)"
    by (simp add: Read_def)
next
  assume "l3 \<in> set (scan_lines r3) \<and> 3 \<le> length (Fields l3)"
  then obtain e where "read_lines dnsRegex (scan_lines r3) [] = Inl e"
    using read_lines_many_fields by blast
  then show "\<exists>e. Read dnsRegex c r3 = (Some e, c)"
    by (simp add: Read_def)
next
  assume ok: "fst (Read dnsRegex c r) = None"
  then obtain rts where rl: "read_lines dnsRegex (scan_lines r) [] = Inr rts"
    by (auto simp: Read_def split: sum.splits option.splits)
  from read_lines_Inr [OF rl]
  show "\<forall>t \<in> set (scan_lines r). Fields t = [] \<or> length (Fields t) = 2"
    by simp
next
  assume ok: "fst (Read dnsRegex c r) = None"
  then obtain rts where rl: "read_lines dnsRegex (scan_lines r) [] = Inr rts"
    and rd: "Read dnsRegex c r = (None, c\<lparr>routes := rts\<rparr>)"
    by (auto simp: Read_def split: sum.splits option.splits)
  from read_lines_Inr [OF rl] rd
  show "map (\<lambda>q. (Inr (match q), backend q)) (routes (snd (Read dnsRegex c r)))
          = map (\<lambda>t. (dnsRegex (Fields t ! 0), Fields t ! 1))
              (filter (\<lambda>t. Fields t \<noteq> []) (scan_lines r))"
    by simp
next
  assume wf: "(\<forall>t \<in> set (scan_lines rw).
          Fields t = [] \<or> (\<exists>f0 f1 re. Fields t = [f0, f1] \<and> dnsRegex f0 = Inr re))
        \<and> scan_err rw = None"
  then have "read_lines dnsRegex (scan_lines rw) [] =
      Inr (map (\<lambda>t. \<lparr>match = projr (dnsRegex (Fields t ! 0)), backend = Fields t ! 1\<rparr>)
             (filter (\<lambda>t. Fields t \<noteq> []) (scan_lines rw)))"
    using read_lines_well_formed [of "scan_lines rw" dnsRegex "[]"] by simp
  with wf show "Read dnsRegex c rw =
          (None, c\<lparr>routes :=
             map (\<lambda>t. \<lparr>match = projr (dnsRegex (Fields t ! 0)), backend = Fields t ! 1\<rparr>)
               (filter (\<lambda>t. Fields t \<noteq> []) (scan_lines rw))\<rparr>)"
    by (simp add: Read_def)
next
  assume "(\<forall>q \<in> set rs1. \<not> MatchString (match q) h) \<and> MatchString (match rt) h"
  then show "Match MatchString \<lparr>routes = rs1 @ rt # rs2\<rparr> h = backend rt"
    by (simp add: Match_def match_routes_first)
next
  assume "\<forall>q \<in> set (routes cfg). \<not> MatchString (match q) h'"
  then show "Match MatchString cfg h' = []"
    by (simp add: Match_def match_routes_none)
qed

lemma Fields_examples:
  "Fields (str ''  '') = []"
  "Fields (str []) = []"
  "Fields (str ''a.test'') = [str ''a.test'']"
  "Fields (str ''a b c'') = [str ''a'', str ''b'', str ''c'']"
  "Fields (str ''a.test A'') = [str ''a.test'', str ''A'']"
  "Fields (str ''b.test B'') = [str ''b.test'', str ''B'']"
  "Fields (str ''(x B'') = [str ''(x'', str ''B'']"
  by (simp_all add: Fields_def str_def IsSpace_def)

theorem config_read_match_witness:
  "Fields (str ''  '') = []
   \<and> Read literal_regex \<lparr>routes = []\<rparr> (lines_of [''a.test A'', ''  '', ''b.test B''])
       = Read literal_regex \<lparr>routes = []\<rparr> (lines_of [''a.test A'', ''b.test B''])
   \<and> str ''a.test'' \<in> set (scan_lines (lines_of [''a.test A'', ''a.test'']))
   \<and> length (Fields (str ''a.test'')) = 1
   \<and> (\<exists>e. Read literal_regex \<lparr>routes = []\<rparr> (lines_of [''a.test A'', ''a.test''])
         = (Some e, \<lparr>routes = []\<rparr>))
   \<and> str ''a b c'' \<in> set (scan_lines (lines_of [''a b c'']))
   \<and> 3 \<le> length (Fields (str ''a b c''))
   \<and> (\<exists>e. Read literal_regex \<lparr>routes = []\<rparr> (lines_of [''a b c''])
         = (Some e, \<lparr>routes = []\<rparr>))
   \<and> fst (Read literal_regex \<lparr>routes = []\<rparr> (lines_of [''a.test A'', [], ''b.test B''])) = None
   \<and> routes (snd (Read literal_regex \<lparr>routes = []\<rparr> (lines_of [''a.test A'', [], ''b.test B''])))
       = [route_to ''a.test'' ''A'', route_to ''b.test'' ''B'']
   \<and> \<not> exact_host (match (route_to ''a.test'' ''A'')) (str ''b.test'')
   \<and> exact_host (match (route_to ''b.test'' ''B'')) (str ''b.test'')
   \<and> Match exact_host
        \<lparr>routes = [route_to ''a.test'' ''A''] @ route_to ''b.test'' ''B'' # [route_to ''b.test'' ''C'']\<rparr>
        (str ''b.test'') = str ''B''
   \<and> \<not> exact_host (match (route_to ''a.test'' ''A'')) (str ''c.test'')
   \<and> Match exact_host \<lparr>routes = [route_to ''a.test'' ''A'']\<rparr> (str ''c.test'') = []
   \<and> IsSpace 0x20
   \<and> Fields (str ''a.test'' @ 0x20 # str ''A'') = [str ''a.test'', str ''A'']"
proof -
  have h1: "Fields (str ''  '') = []"
    by (simp add: Fields_examples)
  have h2: "str ''a.test'' \<in> set (scan_lines (lines_of [''a.test A'', ''a.test'']))
            \<and> length (Fields (str ''a.test'')) = 1"
    by (simp add: lines_of_def Fields_examples)
  have h3: "str ''a b c'' \<in> set (scan_lines (lines_of [''a b c'']))
            \<and> 3 \<le> length (Fields (str ''a b c''))"
    by (simp add: lines_of_def Fields_examples)
  have wf: "(\<forall>t \<in> set (scan_lines (lines_of [''a.test A'', [], ''b.test B''])).
          Fields t = [] \<or> (\<exists>f0 f1 re. Fields t = [f0, f1] \<and> literal_regex f0 = Inr re))
        \<and> scan_err (lines_of [''a.test A'', [], ''b.test B'']) = None"
    by (simp add: lines_of_def Fields_examples literal_regex_def) (simp add: str_def)
  have rts: "map (\<lambda>t. \<lparr>match = projr (literal_regex (Fields t ! 0)), backend = Fields t ! 1\<rparr>)
               (filter (\<lambda>t. Fields t \<noteq> []) (scan_lines (lines_of [''a.test A'', [], ''b.test B''])))
             = [route_to ''a.test'' ''A'', route_to ''b.test'' ''B'']"
    by (simp add: lines_of_def Fields_examples literal_regex_def route_to_def) (simp add: str_def)
  have ne: "str ''a.test'' \<noteq> str ''b.test''" "str ''a.test'' \<noteq> str ''c.test''"
    by (simp_all add: str_def)
  have h5: "(\<forall>q \<in> set [route_to ''a.test'' ''A'']. \<not> exact_host (match q) (str ''b.test''))
            \<and> exact_host (match (route_to ''b.test'' ''B'')) (str ''b.test'')"
    using ne by (simp add: exact_host_def route_to_def)
  have h6: "\<forall>q \<in> set (routes \<lparr>routes = [route_to ''a.test'' ''A'']\<rparr>).
              \<not> exact_host (match q) (str ''c.test'')"
    using ne by (simp add: exact_host_def route_to_def)
  note inst = config_read_match [where dnsRegex = literal_regex and c = "\<lparr>routes = []\<rparr>"
      and b = "str ''  ''" and pre = "[str ''a.test A'']" and post = "[str ''b.test B'']"
      and se = None
      and ?l1.0 = "str ''a.test''" and ?r1.0 = "lines_of [''a.test A'', ''a.test'']"
      and ?l3.0 = "str ''a b c''" and ?r3.0 = "lines_of [''a b c'']"
      and r = "lines_of [''a.test A'', [], ''b.test B'']"
      and rw = "lines_of [''a.test A'', [], ''b.test B'']"
      and s = "str ''  ''" and w = "str ''a.test''" and sp = "0x20"
      and ?s1.0 = "str ''a.test''" and ?s2.0 = "str ''A''"
      and MatchString = exact_host and ?rs1.0 = "[route_to ''a.test'' ''A'']"
      and rt = "route_to ''b.test'' ''B''" and ?rs2.0 = "[route_to ''b.test'' ''C'']"
      and h = "str ''b.test''" and cfg = "\<lparr>routes = [route_to ''a.test'' ''A'']\<rparr>"
      and h' = "str ''c.test''"]
  from inst wf have "Read literal_regex \<lparr>routes = []\<rparr> (lines_of [''a.test A'', [], ''b.test B''])
            = (None, \<lparr>routes = []\<rparr>\<lparr>routes :=
                map (\<lambda>t. \<lparr>match = projr (literal_regex (Fields t ! 0)), backend = Fields t ! 1\<rparr>)
                  (filter (\<lambda>t. Fields t \<noteq> [])
                     (scan_lines (lines_of [''a.test A'', [], ''b.test B''])))\<rparr>)"
    by blast
  with rts have h4: "Read literal_regex \<lparr>routes = []\<rparr> (lines_of [''a.test A'', [], ''b.test B''])
            = (None, \<lparr>routes = [route_to ''a.test'' ''A'', route_to ''b.test'' ''B'']\<rparr>)"
    by simp
  from inst h1 have c1:
    "Read literal_regex \<lparr>routes = []\<rparr> (lines_of [''a.test A'', ''  '', ''b.test B''])
       = Read literal_regex \<lparr>routes = []\<rparr> (lines_of [''a.test A'', ''b.test B''])"
    by (simp add: lines_of_def)
  from inst h2 have c2:
    "\<exists>e. Read literal_regex \<lparr>routes = []\<rparr> (lines_of [''a.test A'', ''a.test''])
         = (Some e, \<lparr>routes = []\<rparr>)"
    by blast
  from inst h3 have c3:
    "\<exists>e. Read literal_regex \<lparr>routes = []\<rparr> (lines_of [''a b c''])
         = (Some e, \<lparr>routes = []\<rparr>)"
    by blast
  from inst h5 have c5: "Match exact_host
        \<lparr>routes = [route_to ''a.test'' ''A''] @ route_to ''b.test'' ''B'' # [route_to ''b.test'' ''C'']\<rparr>
        (str ''b.test'') = str ''B''"
    by (simp add: route_to_def)
  from inst h6 have c6:
    "Match exact_host \<lparr>routes = [route_to ''a.test'' ''A'']\<rparr> (str ''c.test'') = []"
    by blast
  have sp: "IsSpace 0x20"
    by (simp add: IsSpace_def)
  have wd: "str ''a.test'' \<noteq> [] \<and> list_all (\<lambda>x. \<not> IsSpace x) (str ''a.test'')"
    by (simp add: str_def IsSpace_def)
  from inst sp wd have c7:
    "Fields (str ''a.test'' @ 0x20 # str ''A'') = [str ''a.test''] @ Fields (str ''A'')"
    by simp
  have c8: "Fields (str ''A'') = [str ''A'']"
    by (simp add: Fields_def str_def IsSpace_def)
  from h1 h2 h3 h4 h5 h6 c1 c2 c3 c5 c6 c7 c8 sp show ?thesis
    by simp
qed

lemma read_lines_bad_pattern:
  "l \<in> set ls \<Longrightarrow> Fields l = [f0, f1] \<Longrightarrow> dnsRegex f0 = Inl e0 \<Longrightarrow>
     \<exists>e. read_lines dnsRegex ls rts = Inl e"
  by (induction ls arbitrary: rts) (auto split: list.splits sum.splits)

text \<open>
  C10. \<open>Read\<close> is atomic with respect to failure. Whenever it returns an error the
  configuration is the one it was given; the configuration differs afterwards only if
  \<open>Read\<close> returned no error, the scanner reported none and every line was parsed, the
  new routes being the parsed ones. A one-field line, a line with three or more fields,
  a pattern that does not compile and a scanner error each make \<open>Read\<close> return an error
  and leave the configuration unchanged.
\<close>

theorem config_read_atomic:
  fixes dnsRegex :: "gostr \<Rightarrow> rune error + 're"
  shows
  "(fst (Read dnsRegex c r) \<noteq> None \<longrightarrow> snd (Read dnsRegex c r) = c)
   \<and> (snd (Read dnsRegex c r) \<noteq> c \<longrightarrow>
        fst (Read dnsRegex c r) = None \<and> scan_err r = None
        \<and> read_lines dnsRegex (scan_lines r) [] = Inr (routes (snd (Read dnsRegex c r))))
   \<and> ((\<exists>l \<in> set (scan_lines r).
          length (Fields l) = 1 \<or> 3 \<le> length (Fields l)
          \<or> (\<exists>f0 f1 e. Fields l = [f0, f1] \<and> dnsRegex f0 = Inl e))
        \<or> scan_err r \<noteq> None
      \<longrightarrow> fst (Read dnsRegex c r) \<noteq> None \<and> snd (Read dnsRegex c r) = c)"
proof (intro conjI impI)
  assume "fst (Read dnsRegex c r) \<noteq> None"
  then show "snd (Read dnsRegex c r) = c"
    by (auto simp: Read_def split: sum.splits option.splits)
next
  assume "snd (Read dnsRegex c r) \<noteq> c"
  then show "fst (Read dnsRegex c r) = None"
    by (auto simp: Read_def split: sum.splits option.splits)
next
  assume "snd (Read dnsRegex c r) \<noteq> c"
  then show "scan_err r = None"
    by (auto simp: Read_def split: sum.splits option.splits)
next
  assume "snd (Read dnsRegex c r) \<noteq> c"
  then show "read_lines dnsRegex (scan_lines r) [] = Inr (routes (snd (Read dnsRegex c r)))"
    by (auto simp: Read_def split: sum.splits option.splits)
next
  assume bad: "(\<exists>l \<in> set (scan_lines r).
          length (Fields l) = 1 \<or> 3 \<le> length (Fields l)
          \<or> (\<exists>f0 f1 e. Fields l = [f0, f1] \<and> dnsRegex f0 = Inl e))
        \<or> scan_err r \<noteq> None"
  have "(\<exists>e. read_lines dnsRegex (scan_lines r) [] = Inl e) \<or> scan_err r \<noteq> None"
    using bad read_lines_one_field read_lines_many_fields read_lines_bad_pattern
    by blast
  then show "fst (Read dnsRegex c r) \<noteq> None"
    by (auto simp: Read_def split: sum.splits option.splits)
  then show "snd (Read dnsRegex c r) = c"
    by (auto simp: Read_def split: sum.splits option.splits)
qed

theorem config_read_atomic_witness:
  "fst (Read literal_regex \<lparr>routes = [route_to ''a.test'' ''A'']\<rparr>
          (lines_of [''b.test B'', ''(x B''])) \<noteq> None
   \<and> snd (Read literal_regex \<lparr>routes = [route_to ''a.test'' ''A'']\<rparr>
          (lines_of [''b.test B'', ''(x B''])) = \<lparr>routes = [route_to ''a.test'' ''A'']\<rparr>
   \<and> (\<exists>l \<in> set (scan_lines (lines_of [''b.test B'', ''(x B''])).
          \<exists>f0 f1 e. Fields l = [f0, f1] \<and> literal_regex f0 = Inl e)
   \<and> snd (Read literal_regex \<lparr>routes = [route_to ''a.test'' ''A'']\<rparr> (lines_of [''b.test B'']))
        \<noteq> \<lparr>routes = [route_to ''a.test'' ''A'']\<rparr>
   \<and> fst (Read literal_regex \<lparr>routes = [route_to ''a.test'' ''A'']\<rparr> (lines_of [''b.test B'']))
        = None"
proof -
  let ?c = "\<lparr>routes = [route_to ''a.test'' ''A'']\<rparr>"
  have bad: "\<exists>l \<in> set (scan_lines (lines_of [''b.test B'', ''(x B''])).
          \<exists>f0 f1 e. Fields l = [f0, f1] \<and> literal_regex f0 = Inl e"
    by (simp add: lines_of_def Fields_examples literal_regex_def) (simp add: str_def)
  have chg: "snd (Read literal_regex ?c (lines_of [''b.test B''])) \<noteq> ?c"
    by (simp add: Read_def lines_of_def Fields_examples literal_regex_def route_to_def)
       (simp add: str_def)
  from config_read_atomic [of literal_regex ?c "lines_of [''b.test B'', ''(x B'']"] bad
  have e1: "fst (Read literal_regex ?c (lines_of [''b.test B'', ''(x B''])) \<noteq> None
            \<and> snd (Read literal_regex ?c (lines_of [''b.test B'', ''(x B''])) = ?c"
    by blast
  from config_read_atomic [of literal_regex ?c "lines_of [''b.test B'']"] chg
  have e2: "fst (Read literal_regex ?c (lines_of [''b.test B''])) = None"
    by blast
  from bad chg e1 e2 show ?thesis by simp
qed

section \<open>Properties of the sniffer\<close>

declare fill_until.simps [simp del]

lemma Read_into_keeps:
  "(\<exists>more. buffered (snd (Read_into b)) = buffered b @ more)
   \<and> unread (snd (Read_into b)) = unread b
   \<and> bufsize (snd (Read_into b)) = bufsize b"
proof (cases "upstream b")
  case Nil
  then show ?thesis by (simp add: Read_into_def)
next
  case (Cons r rest)
  obtain d e where r: "r = Rd d e" by (cases r)
  let ?n = "min (bufsize b - length (buffered b)) (length d)"
  have "take ?n d @ drop ?n d = d" by simp
  then have "take ?n d @ drop ?n d @ xs = d @ xs" for xs
    by (metis append_assoc)
  with Cons r show ?thesis
    by (simp add: Read_into_def Let_def unread_def)
qed


lemma fill_tries_keeps:
  "(\<exists>more. buffered (fill_tries i b) = buffered b @ more)
   \<and> unread (fill_tries i b) = unread b
   \<and> bufsize (fill_tries i b) = bufsize b"
proof (induction i arbitrary: b)
  case 0
  then show ?case by (simp add: unread_def)
next
  case (Suc i)
  obtain k eo b' where ri: "Read_into b = ((k, eo), b')"
    by (cases "Read_into b") auto
  from Read_into_keeps [of b] ri obtain m1 where
    k: "buffered b' = buffered b @ m1" "unread b' = unread b" "bufsize b' = bufsize b"
    by auto
  show ?case
  proof (cases eo)
    case (Some e)
    with ri k show ?thesis by (simp add: unread_def)
  next
    case None
    show ?thesis
    proof (cases "0 < k")
      case True
      with ri None k show ?thesis by simp
    next
      case False
      from Suc.IH [of b'] obtain m2 where
        "buffered (fill_tries i b') = buffered b' @ m2" "unread (fill_tries i b') = unread b'"
        "bufsize (fill_tries i b') = bufsize b'"
        by auto
      with ri None False k show ?thesis by simp
    qed
  qed
qed


lemma fill_until_step:
  "length (buffered b) < n \<and> length (buffered b) < bufsize b \<and> pending b = None
     \<Longrightarrow> fill_until n b = fill_until n (fill b)"
  by (subst fill_until.simps) simp

lemma fill_until_stop:
  "\<not> (length (buffered b) < n \<and> length (buffered b) < bufsize b \<and> pending b = None)
     \<Longrightarrow> fill_until n b = b"
  by (subst fill_until.simps) auto

lemma fill_until_keeps:
  "(\<exists>more. buffered (fill_until n b) = buffered b @ more)
   \<and> unread (fill_until n b) = unread b
   \<and> bufsize (fill_until n b) = bufsize b"
proof (induction n b rule: fill_until.induct)
  case (1 n b)
  show ?case
  proof (cases "length (buffered b) < n \<and> length (buffered b) < bufsize b \<and> pending b = None")
    case True
    from fill_tries_keeps [of maxConsecutiveEmptyReads b] obtain m1 where
      f: "buffered (fill b) = buffered b @ m1" "unread (fill b) = unread b"
      "bufsize (fill b) = bufsize b"
      by (auto simp: fill_def)
    from 1 [OF True] obtain m2 where
      "buffered (fill_until n (fill b)) = buffered (fill b) @ m2"
      "unread (fill_until n (fill b)) = unread (fill b)"
      "bufsize (fill_until n (fill b)) = bufsize (fill b)"
      by auto
    with f True show ?thesis by (simp add: fill_until_step)
  next
    case False
    then show ?thesis by (simp add: fill_until_stop)
  qed
qed



lemma fill_until_again: "fill_until n (fill_until n b) = fill_until n b"
proof (induction n b rule: fill_until.induct)
  case (1 n b)
  show ?case
  proof (cases "length (buffered b) < n \<and> length (buffered b) < bufsize b \<and> pending b = None")
    case True
    with 1 show ?thesis by (simp add: fill_until_step)
  next
    case False
    then show ?thesis by (simp add: fill_until_stop)
  qed
qed

lemma Peek_cases:
  "Peek n b =
     (if bufsize b < n then (Inl ErrBufferFull, fill_until n b)
      else if Peek_short n b
      then (Inl (case pending (fill_until n b) of Some e \<Rightarrow> e | None \<Rightarrow> ErrBufferFull),
            (fill_until n b)\<lparr>pending := None\<rparr>)
      else (Inr (take n (buffered (fill_until n b))), fill_until n b))"
  using fill_until_keeps [of n b]
  by (auto simp: Peek_def Let_def Peek_short_def readErr_def split: option.splits)


lemma Peek_Inr:
  "fst (Peek n b) = Inr bs \<Longrightarrow>
     n \<le> bufsize b \<and> \<not> Peek_short n b \<and> n \<le> length (buffered (snd (Peek n b)))
     \<and> bs = take n (buffered (snd (Peek n b))) \<and> length bs = n"
  by (auto simp: Peek_cases Peek_short_def split: if_splits)

lemma Peek_Inr_length: "fst (Peek n b) = Inr bs \<Longrightarrow> length bs = n"
  using Peek_Inr by blast






lemma ReadClientHelloInfo_unfold:
  "ReadClientHelloInfo hs br =
     (case Peek recordHeaderLen br of
        (Inl e, br1) \<Rightarrow> (Return (Inl e), br1)
      | (Inr hdr, br1) \<Rightarrow>
          if hdr ! 0 \<noteq> recordTypeHandshake then (Return (Inl NotTLS), br1)
          else
            (case Peek (recordHeaderLen + recLen_of hdr) br1 of
               (Inl e, br2) \<Rightarrow> (Return (Inl e), br2)
             | (Inr bs, br2) \<Rightarrow>
                 (Return (Inr (case hs bs of None \<Rightarrow> \<lparr>ServerName = []\<rparr> | Some h \<Rightarrow> h)), br2)))"
proof (cases "Peek recordHeaderLen br")
  case (Pair r1 br1)
  show ?thesis
  proof (cases r1)
    case (Inl e)
    with Pair show ?thesis by (simp add: ReadClientHelloInfo_def)
  next
    case (Inr hdr)
    with Pair have "length hdr = 5"
      using Peek_Inr_length [of recordHeaderLen br hdr] by (simp add: recordHeaderLen_def)
    with Pair Inr show ?thesis
      by (cases "Peek (recordHeaderLen + recLen_of hdr) br1")
         (auto simp: ReadClientHelloInfo_def at_def recLen_of_def Let_def
            split: sum.splits option.splits)
  qed
qed

lemma clientHelloServerName_unfold:
  "clientHelloServerName hs br =
     (case ReadClientHelloInfo hs br of
        (Panic, br') \<Rightarrow> (Panic, br')
      | (Return (Inl e), br') \<Rightarrow> (Return [], br')
      | (Return (Inr hello), br') \<Rightarrow> (Return (ServerName hello), br'))"
  by (simp add: clientHelloServerName_def)

lemma ReadClientHelloInfo_returns:
  "\<exists>res. fst (ReadClientHelloInfo hs br) = Return res"
  by (auto simp: ReadClientHelloInfo_unfold split: prod.splits sum.splits option.splits)

lemma clientHelloServerName_returns:
  "\<exists>sni br'. clientHelloServerName hs br = (Return sni, br')"
  using ReadClientHelloInfo_returns [of hs br]
  by (cases "ReadClientHelloInfo hs br")
     (auto simp: clientHelloServerName_def split: sum.splits)


lemma clientHelloServerName_fst:
  "fst (clientHelloServerName hs br) =
     (case fst (ReadClientHelloInfo hs br) of
        Panic \<Rightarrow> Panic
      | Return (Inl e) \<Rightarrow> Return []
      | Return (Inr hello) \<Rightarrow> Return (ServerName hello))"
  by (simp add: clientHelloServerName_def split: prod.splits outcome.splits sum.splits)






lemma sniff_cases:
  "(\<exists>sni. fst (clientHelloServerName hs br) = Return sni)
   \<and> (\<forall>e. fst (Peek recordHeaderLen br) = Inl e
          \<longrightarrow> fst (clientHelloServerName hs br) = Return [])
   \<and> (\<forall>hdr. fst (Peek recordHeaderLen br) = Inr hdr \<and> hdr ! 0 \<noteq> recordTypeHandshake
          \<longrightarrow> fst (clientHelloServerName hs br) = Return [])
   \<and> (\<forall>hdr e. fst (Peek recordHeaderLen br) = Inr hdr \<and> hdr ! 0 = recordTypeHandshake
          \<and> fst (Peek (recordHeaderLen + recLen_of hdr) (snd (Peek recordHeaderLen br))) = Inl e
          \<longrightarrow> fst (clientHelloServerName hs br) = Return [])
   \<and> (\<forall>hdr bs hello. fst (Peek recordHeaderLen br) = Inr hdr \<and> hdr ! 0 = recordTypeHandshake
          \<and> fst (Peek (recordHeaderLen + recLen_of hdr) (snd (Peek recordHeaderLen br))) = Inr bs
          \<and> hs bs = Some hello
          \<longrightarrow> fst (clientHelloServerName hs br) = Return (ServerName hello))
   \<and> (\<forall>hdr bs. fst (Peek recordHeaderLen br) = Inr hdr \<and> hdr ! 0 = recordTypeHandshake
          \<and> fst (Peek (recordHeaderLen + recLen_of hdr) (snd (Peek recordHeaderLen br))) = Inr bs
          \<and> hs bs = None
          \<longrightarrow> fst (clientHelloServerName hs br) = Return [])"
proof (intro conjI allI impI)
  show "\<exists>sni. fst (clientHelloServerName hs br) = Return sni"
    using clientHelloServerName_returns [of hs br] by auto
next
  fix e assume "fst (Peek recordHeaderLen br) = Inl e"
  then show "fst (clientHelloServerName hs br) = Return []"
    by (cases "Peek recordHeaderLen br")
       (simp add: clientHelloServerName_fst ReadClientHelloInfo_unfold)
next
  fix hdr assume "fst (Peek recordHeaderLen br) = Inr hdr \<and> hdr ! 0 \<noteq> recordTypeHandshake"
  then show "fst (clientHelloServerName hs br) = Return []"
    by (cases "Peek recordHeaderLen br")
       (simp add: clientHelloServerName_fst ReadClientHelloInfo_unfold)
next
  fix hdr e
  assume "fst (Peek recordHeaderLen br) = Inr hdr \<and> hdr ! 0 = recordTypeHandshake
          \<and> fst (Peek (recordHeaderLen + recLen_of hdr) (snd (Peek recordHeaderLen br))) = Inl e"
  then show "fst (clientHelloServerName hs br) = Return []"
    by (cases "Peek recordHeaderLen br";
        cases "Peek (recordHeaderLen + recLen_of hdr) (snd (Peek recordHeaderLen br))")
       (simp add: clientHelloServerName_fst ReadClientHelloInfo_unfold)
next
  fix hdr bs hello
  assume "fst (Peek recordHeaderLen br) = Inr hdr \<and> hdr ! 0 = recordTypeHandshake
          \<and> fst (Peek (recordHeaderLen + recLen_of hdr) (snd (Peek recordHeaderLen br))) = Inr bs
          \<and> hs bs = Some hello"
  then show "fst (clientHelloServerName hs br) = Return (ServerName hello)"
    by (cases "Peek recordHeaderLen br";
        cases "Peek (recordHeaderLen + recLen_of hdr) (snd (Peek recordHeaderLen br))")
       (simp add: clientHelloServerName_fst ReadClientHelloInfo_unfold)
next
  fix hdr bs
  assume "fst (Peek recordHeaderLen br) = Inr hdr \<and> hdr ! 0 = recordTypeHandshake
          \<and> fst (Peek (recordHeaderLen + recLen_of hdr) (snd (Peek recordHeaderLen br))) = Inr bs
          \<and> hs bs = None"
  then show "fst (clientHelloServerName hs br) = Return []"
    by (cases "Peek recordHeaderLen br";
        cases "Peek (recordHeaderLen + recLen_of hdr) (snd (Peek recordHeaderLen br))")
       (simp add: clientHelloServerName_fst ReadClientHelloInfo_unfold)
qed

lemma recLen_arith:
  fixes h3 h4 :: "8 word"
  shows "push_bit 8 (unat h3) OR unat h4 = 256 * unat h3 + unat h4"
proof -
  have lt: "unat h4 < 2 ^ 8"
    using unsigned_less [of h4, where ?'a = nat] by simp
  have "\<not> bit (push_bit 8 (unat h3)) n \<or> \<not> bit (unat h4) n" for n
  proof (cases "n < 8")
    case True
    then show ?thesis by (simp add: bit_push_bit_iff)
  next
    case False
    then have "8 \<le> n" by simp
    then have "(2::nat) ^ 8 \<le> 2 ^ n" by (rule power_increasing) simp
    with lt have "unat h4 < 2 ^ n" by linarith
    then have "\<not> bit (unat h4) n"
      by (simp add: bit_iff_odd)
    then show ?thesis by simp
  qed
  then have "push_bit 8 (unat h3) + unat h4 = push_bit 8 (unat h3) OR unat h4"
    by (rule disjunctive_add)
  then show ?thesis by (simp add: push_bit_eq_mult)
qed

text \<open>
  C2. \<open>clientHelloServerName\<close> always returns a string: it neither panics nor hands an
  error to its caller. When peeking the 5-byte header fails, when the first header byte
  is not \<open>0x16\<close>, and when peeking the window of 5 bytes plus the announced length
  (bytes 3 and 4 of the header, big-endian) fails, the string is empty. When both peeks
  succeed, the string is the \<open>ServerName\<close> of the hello that the TLS parser exported
  for the window, and the empty string if the parser exported none.
\<close>

theorem sniff_total:
  "(\<exists>sni. fst (clientHelloServerName hs br) = Return sni)
   \<and> (\<forall>e. fst (Peek 5 br) = Inl e
          \<longrightarrow> fst (clientHelloServerName hs br) = Return [])
   \<and> (\<forall>hdr. fst (Peek 5 br) = Inr hdr \<and> hdr ! 0 \<noteq> 0x16
          \<longrightarrow> fst (clientHelloServerName hs br) = Return [])
   \<and> (\<forall>hdr e. fst (Peek 5 br) = Inr hdr \<and> hdr ! 0 = 0x16
          \<and> fst (Peek (5 + (256 * unat (hdr ! 3) + unat (hdr ! 4))) (snd (Peek 5 br))) = Inl e
          \<longrightarrow> fst (clientHelloServerName hs br) = Return [])
   \<and> (\<forall>hdr bs hello. fst (Peek 5 br) = Inr hdr \<and> hdr ! 0 = 0x16
          \<and> fst (Peek (5 + (256 * unat (hdr ! 3) + unat (hdr ! 4))) (snd (Peek 5 br))) = Inr bs
          \<and> hs bs = Some hello
          \<longrightarrow> fst (clientHelloServerName hs br) = Return (ServerName hello))
   \<and> (\<forall>hdr bs. fst (Peek 5 br) = Inr hdr \<and> hdr ! 0 = 0x16
          \<and> fst (Peek (5 + (256 * unat (hdr ! 3) + unat (hdr ! 4))) (snd (Peek 5 br))) = Inr bs
          \<and> hs bs = None
          \<longrightarrow> fst (clientHelloServerName hs br) = Return [])"
  using sniff_cases [of hs br]
  unfolding recordHeaderLen_def recordTypeHandshake_def recLen_of_def recLen_arith
  .

lemma sniff_examples:
  "fst (Peek 5 (from_conn [[0x16, 3]])) = Inl EOF"
  "fst (Peek 5 (from_conn [[0x47, 0x45, 0x54], [0x20, 0x2F]]))
     = Inr [0x47, 0x45, 0x54, 0x20, 0x2F]"
  "fst (Peek 5 (from_conn [[0x16, 3, 1], [0, 2, 0x61]])) = Inr [0x16, 3, 1, 0, 2]"
  "fst (Peek 7 (snd (Peek 5 (from_conn [[0x16, 3, 1], [0, 2, 0x61]])))) = Inl EOF"
  "fst (Peek 5 (from_conn [[0x16, 3, 1], [0, 2, 0x61, 0x62, 0x17]]))
     = Inr [0x16, 3, 1, 0, 2]"
  "fst (Peek 7 (snd (Peek 5 (from_conn [[0x16, 3, 1], [0, 2, 0x61, 0x62, 0x17]]))))
     = Inr [0x16, 3, 1, 0, 2, 0x61, 0x62]"
  "payload_name [0x16, 3, 1, 0, 2, 0x61, 0x62] = Some \<lparr>ServerName = ''ab''\<rparr>"
  "fst (Peek 5 (from_conn [[0x16, 3, 1, 0, 0]])) = Inr [0x16, 3, 1, 0, 0]"
  "fst (Peek 5 (snd (Peek 5 (from_conn [[0x16, 3, 1, 0, 0]])))) = Inr [0x16, 3, 1, 0, 0]"
  "payload_name [0x16, 3, 1, 0, 0] = None"
  by code_simp+

theorem sniff_total_witness:
  "fst (Peek 5 (from_conn [[0x16, 3]])) = Inl EOF
   \<and> fst (clientHelloServerName payload_name (from_conn [[0x16, 3]])) = Return []
   \<and> fst (Peek 5 (from_conn [[0x47, 0x45, 0x54], [0x20, 0x2F]]))
        = Inr [0x47, 0x45, 0x54, 0x20, 0x2F]
   \<and> fst (clientHelloServerName payload_name (from_conn [[0x47, 0x45, 0x54], [0x20, 0x2F]]))
        = Return []
   \<and> fst (Peek 5 (from_conn [[0x16, 3, 1], [0, 2, 0x61]])) = Inr [0x16, 3, 1, 0, 2]
   \<and> fst (Peek 7 (snd (Peek 5 (from_conn [[0x16, 3, 1], [0, 2, 0x61]])))) = Inl EOF
   \<and> fst (clientHelloServerName payload_name (from_conn [[0x16, 3, 1], [0, 2, 0x61]]))
        = Return []
   \<and> fst (Peek 7 (snd (Peek 5 (from_conn [[0x16, 3, 1], [0, 2, 0x61, 0x62, 0x17]]))))
        = Inr [0x16, 3, 1, 0, 2, 0x61, 0x62]
   \<and> payload_name [0x16, 3, 1, 0, 2, 0x61, 0x62] = Some \<lparr>ServerName = ''ab''\<rparr>
   \<and> fst (clientHelloServerName payload_name (from_conn [[0x16, 3, 1], [0, 2, 0x61, 0x62, 0x17]]))
        = Return ''ab''
   \<and> fst (Peek 5 (snd (Peek 5 (from_conn [[0x16, 3, 1, 0, 0]])))) = Inr [0x16, 3, 1, 0, 0]
   \<and> payload_name [0x16, 3, 1, 0, 0] = None
   \<and> fst (clientHelloServerName payload_name (from_conn [[0x16, 3, 1, 0, 0]])) = Return []"
proof -
  have a: "fst (clientHelloServerName payload_name (from_conn [[0x16, 3]])) = Return []"
    using sniff_total [of payload_name "from_conn [[0x16, 3]]"] sniff_examples(1)
    by simp
  have b: "fst (clientHelloServerName payload_name (from_conn [[0x47, 0x45, 0x54], [0x20, 0x2F]]))
        = Return []"
    using sniff_total [of payload_name "from_conn [[0x47, 0x45, 0x54], [0x20, 0x2F]]"]
      sniff_examples(2)
    by simp
  have c: "fst (clientHelloServerName payload_name (from_conn [[0x16, 3, 1], [0, 2, 0x61]]))
        = Return []"
    using sniff_total [of payload_name "from_conn [[0x16, 3, 1], [0, 2, 0x61]]"]
      sniff_examples(3,4)
    by simp
  have d: "fst (clientHelloServerName payload_name (from_conn [[0x16, 3, 1], [0, 2, 0x61, 0x62, 0x17]]))
        = Return ''ab''"
    using sniff_total [of payload_name "from_conn [[0x16, 3, 1], [0, 2, 0x61, 0x62, 0x17]]"]
      sniff_examples(5,6,7)
    by simp
  have e: "fst (clientHelloServerName payload_name (from_conn [[0x16, 3, 1, 0, 0]])) = Return []"
    using sniff_total [of payload_name "from_conn [[0x16, 3, 1, 0, 0]]"]
      sniff_examples(8,9,10)
    by simp
  from a b c d e sniff_examples show ?thesis
    by simp
qed








section \<open>Properties of the ACME challenge resolver\<close>

lemma receive_first_None: "receive_first rs = None \<longleftrightarrow> (\<forall>r \<in> set rs. r = None)"
  by (induction rs rule: receive_first.induct) auto

text \<open>
  C1. An ACME probe of target \<open>dest\<close> for the challenge host name \<open>sni\<close> yields that
  target exactly when the handshake succeeds, the peer's chain is not empty and its
  first certificate verifies for \<open>sni\<close>. It yields nothing else than the target or nil;
  a handshake error, an empty chain and a first certificate that does not verify each
  yield nil, whatever the later certificates of the chain are.
\<close>

theorem tryACME_yes_iff:
  "(tryACME tls dest sni = Some dest \<longleftrightarrow>
      (\<exists>cert0 certs. Handshake tls dest sni = Inr (cert0 # certs)
          \<and> VerifyHostname tls cert0 sni = None))
   \<and> (tryACME tls dest sni = None \<or> tryACME tls dest sni = Some dest)
   \<and> (\<forall>err. Handshake tls dest sni = Inl err \<longrightarrow> tryACME tls dest sni = None)
   \<and> (Handshake tls dest sni = Inr [] \<longrightarrow> tryACME tls dest sni = None)
   \<and> (\<forall>cert0 certs err. Handshake tls dest sni = Inr (cert0 # certs)
          \<and> VerifyHostname tls cert0 sni = Some err \<longrightarrow> tryACME tls dest sni = None)"
  by (auto simp: tryACME_def split: sum.splits list.splits option.splits)

theorem tryACME_yes_iff_witness:
  "Handshake (name_certs three_backends) 1 ''x.acme.invalid'' = Inr [''x.acme.invalid'', ''other'']
   \<and> VerifyHostname (name_certs three_backends) ''x.acme.invalid'' ''x.acme.invalid'' = None
   \<and> tryACME (name_certs three_backends) 1 ''x.acme.invalid'' = Some 1
   \<and> Handshake (name_certs three_backends) 0 ''x.acme.invalid'' = Inl EOF
   \<and> tryACME (name_certs three_backends) 0 ''x.acme.invalid'' = None
   \<and> Handshake (name_certs three_backends) 2 ''x.acme.invalid'' = Inr []
   \<and> tryACME (name_certs three_backends) 2 ''x.acme.invalid'' = None
   \<and> Handshake (name_certs three_backends) 3 ''x.acme.invalid'' = Inr [''other'', ''x.acme.invalid'']
   \<and> VerifyHostname (name_certs three_backends) ''other'' ''x.acme.invalid''
        = Some (LibraryError ''other'')
   \<and> tryACME (name_certs three_backends) 3 ''x.acme.invalid'' = None"
proof -
  let ?tls = "name_certs three_backends"
  have h: "Handshake ?tls 1 ''x.acme.invalid'' = Inr [''x.acme.invalid'', ''other'']"
    "VerifyHostname ?tls ''x.acme.invalid'' ''x.acme.invalid'' = None"
    "Handshake ?tls 0 ''x.acme.invalid'' = Inl EOF"
    "Handshake ?tls 2 ''x.acme.invalid'' = Inr []"
    "Handshake ?tls 3 ''x.acme.invalid'' = Inr [''other'', ''x.acme.invalid'']"
    "VerifyHostname ?tls ''other'' ''x.acme.invalid'' = Some (LibraryError ''other'')"
    by (simp_all add: name_certs_def three_backends_def)
  have a: "tryACME ?tls 1 ''x.acme.invalid'' = Some 1"
    using tryACME_yes_iff [of ?tls 1 "''x.acme.invalid''"] h(1,2) by blast
  have b: "tryACME ?tls 0 ''x.acme.invalid'' = None"
    using tryACME_yes_iff [of ?tls 0 "''x.acme.invalid''"] h(3) by blast
  have c: "tryACME ?tls 2 ''x.acme.invalid'' = None"
    using tryACME_yes_iff [of ?tls 2 "''x.acme.invalid''"] h(4) by blast
  have d: "tryACME ?tls 3 ''x.acme.invalid'' = None"
    using tryACME_yes_iff [of ?tls 3 "''x.acme.invalid''"] h(5,6) by blast
  from h a b c d show ?thesis by simp
qed

text \<open>
  C6. In whatever order the attempts' results arrive, the ACME matcher returns a result
  (it cannot fail), and the result is the non-match, a nil target with the empty host
  name, whenever the sniffed host name does not end with \<open>.acme.invalid\<close>, whenever there
  is no ACME-eligible backend, and whenever every attempt yields nil.
\<close>

theorem acme_no_match:
  assumes perm: "\<And>rs. mset (arrival rs) = mset rs"
  shows
  "(\<exists>res. fst (acmeMatch_match hs tls arrival targets br) = Return res)
   \<and> (\<forall>sni. fst (clientHelloServerName hs br) = Return sni \<and> \<not> HasSuffix sni ''.acme.invalid''
          \<longrightarrow> fst (acmeMatch_match hs tls arrival targets br) = Return (None, []))
   \<and> (targets = [] \<longrightarrow> fst (acmeMatch_match hs tls arrival targets br) = Return (None, []))
   \<and> (\<forall>sni. fst (clientHelloServerName hs br) = Return sni
          \<and> (\<forall>target \<in> set targets. tryACME tls target sni = None)
          \<longrightarrow> fst (acmeMatch_match hs tls arrival targets br) = Return (None, []))"
proof -
  obtain sni br' where s: "clientHelloServerName hs br = (Return sni, br')"
    using clientHelloServerName_returns [of hs br] by auto
  have set_arr: "set (arrival rs) = set rs" for rs :: "'a option list"
    using perm [of rs] by (metis set_mset_mset)
  have none: "receive_first (arrival (map (\<lambda>target. tryACME tls target sni) targets)) = None"
    if "\<forall>target \<in> set targets. tryACME tls target sni = None"
    using that by (auto simp: receive_first_None set_arr)
  show ?thesis
  proof (intro conjI allI impI)
    show "\<exists>res. fst (acmeMatch_match hs tls arrival targets br) = Return res"
      using s by (simp add: acmeMatch_match_def split: option.splits)
  next
    fix n assume "fst (clientHelloServerName hs br) = Return n \<and> \<not> HasSuffix n ''.acme.invalid''"
    then show "fst (acmeMatch_match hs tls arrival targets br) = Return (None, [])"
      using s by (simp add: acmeMatch_match_def)
  next
    assume "targets = []"
    then show "fst (acmeMatch_match hs tls arrival targets br) = Return (None, [])"
      using s none by (simp add: acmeMatch_match_def)
  next
    fix n assume "fst (clientHelloServerName hs br) = Return n
          \<and> (\<forall>target \<in> set targets. tryACME tls target n = None)"
    then show "fst (acmeMatch_match hs tls arrival targets br) = Return (None, [])"
      using s none by (simp add: acmeMatch_match_def)
  qed
qed

lemma acme_examples:
  "fst (clientHelloServerName payload_name (from_conn [hello_record ''example.com'']))
     = Return ''example.com''"
  "\<not> HasSuffix ''example.com'' ''.acme.invalid''"
  "fst (clientHelloServerName payload_name (from_conn [hello_record ''x.acme.invalid'']))
     = Return ''x.acme.invalid''"
  "tryACME (name_certs three_backends) 0 ''x.acme.invalid'' = None"
  "tryACME (name_certs three_backends) 2 ''x.acme.invalid'' = None"
  "tryACME (name_certs three_backends) 3 ''x.acme.invalid'' = None"
  "fst (acmeMatch_match payload_name (name_certs three_backends) rev [0, 1, 2, 3]
          (from_conn [hello_record ''x.acme.invalid''])) = Return (Some 1, ''x.acme.invalid'')"
  by code_simp+

theorem acme_no_match_witness:
  "fst (clientHelloServerName payload_name (from_conn [hello_record ''example.com'']))
     = Return ''example.com''
   \<and> \<not> HasSuffix ''example.com'' ''.acme.invalid''
   \<and> fst (acmeMatch_match payload_name (name_certs three_backends) rev [0, 1, 2, 3]
          (from_conn [hello_record ''example.com''])) = Return (None, [])
   \<and> fst (acmeMatch_match payload_name (name_certs three_backends) rev []
          (from_conn [hello_record ''x.acme.invalid''])) = Return (None, [])
   \<and> fst (clientHelloServerName payload_name (from_conn [hello_record ''x.acme.invalid'']))
     = Return ''x.acme.invalid''
   \<and> tryACME (name_certs three_backends) 0 ''x.acme.invalid'' = None
   \<and> tryACME (name_certs three_backends) 2 ''x.acme.invalid'' = None
   \<and> tryACME (name_certs three_backends) 3 ''x.acme.invalid'' = None
   \<and> fst (acmeMatch_match payload_name (name_certs three_backends) rev [0, 2, 3]
          (from_conn [hello_record ''x.acme.invalid''])) = Return (None, [])
   \<and> fst (acmeMatch_match payload_name (name_certs three_backends) rev [0, 1, 2, 3]
          (from_conn [hello_record ''x.acme.invalid''])) = Return (Some 1, ''x.acme.invalid'')"
proof -
  let ?tls = "name_certs three_backends"
  have perm: "\<And>rs :: nat option list. mset (rev rs) = mset rs"
    by simp
  have all_no: "\<forall>target \<in> set [0, 2, 3]. tryACME ?tls target ''x.acme.invalid'' = None"
    using acme_examples(4,5,6) by simp
  have a: "fst (acmeMatch_match payload_name ?tls rev [0, 1, 2, 3]
          (from_conn [hello_record ''example.com''])) = Return (None, [])"
    using acme_no_match [of rev payload_name ?tls "[0, 1, 2, 3]"
        "from_conn [hello_record ''example.com'']", OF perm] acme_examples(1,2)
    by blast
  have b: "fst (acmeMatch_match payload_name ?tls rev []
          (from_conn [hello_record ''x.acme.invalid''])) = Return (None, [])"
    using acme_no_match [of rev payload_name ?tls "[]"
        "from_conn [hello_record ''x.acme.invalid'']", OF perm]
    by blast
  have c: "fst (acmeMatch_match payload_name ?tls rev [0, 2, 3]
          (from_conn [hello_record ''x.acme.invalid''])) = Return (None, [])"
    using acme_no_match [of rev payload_name ?tls "[0, 2, 3]"
        "from_conn [hello_record ''x.acme.invalid'']", OF perm] acme_examples(3) all_no
    by blast
  from a b c acme_examples show ?thesis
    by simp
qed

section \<open>Properties of route registration\<close>

lemma config_at_store [simp]:
  "config_at (store p k cfg) k' = (if k' = k then cfg else config_at p k')"
  by (simp add: config_at_def store_def)

lemma config_at_configFor [simp]: "config_at (configFor p k) k' = config_at p k'"
  by (simp add: config_at_def configFor_def zero_config_def split: option.splits)

lemma config_at_addRouteWithId:
  "config_at (addRouteWithId p k r i) k' =
     (if k' = k
      then (config_at p k)\<lparr>routes' := routes' (config_at p k) @ [\<lparr>route_id = i, route_rule = r\<rparr>]\<rparr>
      else config_at p k')"
  by (simp add: addRouteWithId_def Let_def)

lemma config_at_AddSNIMatchRoute:
  "config_at (fst (AddSNIMatchRoute p i k m d)) k' =
     (if k' = k
      then (config_at p k)
        \<lparr>routes' := routes' (config_at p k)
            @ (if \<not> stopACME (config_at p k) \<and> acmeTargets (config_at p k) = []
               then [\<lparr>route_id = i, route_rule = AcmeMatch k\<rparr>] else [])
            @ [\<lparr>route_id = i, route_rule = SniMatch (Some m) (Some d) None\<rparr>],
         acmeTargets := (if stopACME (config_at p k) then acmeTargets (config_at p k)
                         else acmeTargets (config_at p k) @ [d])\<rparr>
      else config_at p k')"
  by (simp add: AddSNIMatchRoute_def Let_def config_at_addRouteWithId)

lemma config_at_addRoute:
  "config_at (fst (addRoute p i k r)) k' =
     (if k' = k
      then (config_at p k)\<lparr>routes' := routes' (config_at p k) @ [\<lparr>route_id = i, route_rule = r\<rparr>]\<rparr>
      else config_at p k')"
  by (simp add: addRoute_def config_at_addRouteWithId)

lemma config_at_AddStopACMESearch:
  "config_at (AddStopACMESearch p k) k' =
     (if k' = k then (config_at p k)\<lparr>stopACME := True\<rparr> else config_at p k')"
  by (simp add: AddStopACMESearch_def Let_def)

lemma config_at_AddSNIDynamicSMTPRoute:
  "config_at (fst (AddSNIDynamicSMTPRoute p i k sn lk)) k' =
     (if k' = k
      then (config_at p k)
        \<lparr>routes' := routes' (config_at p k) @ [\<lparr>route_id = i, route_rule = DynamicSNIMatch lk\<rparr>],
         negotiateFunc := Some (NegotiateSMTPStartTLS sn)\<rparr>
      else config_at p k')"
  by (simp add: AddSNIDynamicSMTPRoute_def Let_def config_at_addRoute)

lemmas config_at_effects =
  AddSNIRoute_def AddSNIDynamicRoute_def AddSNIRouteFunc_def
  config_at_AddSNIMatchRoute config_at_addRoute config_at_AddSNIDynamicSMTPRoute
  config_at_AddStopACMESearch

lemma acme_inv_perform:
  "acme_inv k (config_at p k) \<Longrightarrow> acme_inv k (config_at (perform p i c) k)"
  by (cases c)
     (auto simp: config_at_effects acme_inv_def acme_routes_def)

lemma acme_inv_perform_all:
  "acme_inv k (config_at p k) \<Longrightarrow> acme_inv k (config_at (perform_all p cs) k)"
  by (induction cs arbitrary: p) (auto simp: acme_inv_perform)

lemma acmeTargets_perform:
  "acmeTargets (config_at (perform p i c) k)
     = acmeTargets (config_at p k) @ acme_dests (stopACME (config_at p k)) k [c]
   \<and> stopACME (config_at (perform p i c) k)
     = (stopACME (config_at p k) \<or> c = CallAddStopACMESearch k)"
  by (cases c) (auto simp: config_at_effects)

lemma acme_dests_Cons:
  "acme_dests st k (c # cs)
     = acme_dests st k [c] @ acme_dests (st \<or> c = CallAddStopACMESearch k) k cs"
  by (cases c) auto

lemma acmeTargets_perform_all:
  "acmeTargets (config_at (perform_all p cs) k)
     = acmeTargets (config_at p k) @ acme_dests (stopACME (config_at p k)) k (map snd cs)"
proof (induction cs arbitrary: p)
  case Nil
  then show ?case by simp
next
  case (Cons ic cs)
  obtain i c where ic: "ic = (i, c)" by (cases ic)
  show ?case
    using Cons.IH [of "perform p i c"] acmeTargets_perform [of p i c k]
      acme_dests_Cons [of "stopACME (config_at p k)" k c "map snd cs"]
    by (simp add: ic)
qed

lemma new_Proxy_config [simp]: "config_at new_Proxy k = zero_config"
  by (simp add: new_Proxy_def config_at_def)

text \<open>
  C7. On a listener whose ACME search is not stopped, a call of \<open>AddSNIMatchRoute\<close>
  made while no target is eligible yet (the first such call) registers one ACME
  pseudo-route, pointing to the listener's own table, and makes \<open>dest\<close> the only eligible
  target; a call made later registers no further ACME pseudo-route and appends \<open>dest\<close>
  to the eligible targets. When the ACME search is stopped, as it is after
  \<open>AddStopACMESearch\<close>, a call registers no ACME pseudo-route and the eligible targets
  stay as they are. After any sequence of calls on a new proxy, the eligible targets of a
  listener are those of the SNI routes added to it before its search was stopped, it has
  exactly one ACME pseudo-route if there is such a target and none otherwise, and that
  pseudo-route points to the listener's table.
\<close>

theorem acme_route_once:
  "(\<not> stopACME (config_at p ipPort) \<and> acmeTargets (config_at p ipPort) = [] \<longrightarrow>
      acme_routes (config_at (fst (AddSNIMatchRoute p newId ipPort matcher dest)) ipPort)
        = acme_routes (config_at p ipPort) @ [\<lparr>route_id = newId, route_rule = AcmeMatch ipPort\<rparr>]
      \<and> acmeTargets (config_at (fst (AddSNIMatchRoute p newId ipPort matcher dest)) ipPort) = [dest])
   \<and> (\<not> stopACME (config_at p ipPort) \<and> acmeTargets (config_at p ipPort) \<noteq> [] \<longrightarrow>
      acme_routes (config_at (fst (AddSNIMatchRoute p newId ipPort matcher dest)) ipPort)
        = acme_routes (config_at p ipPort)
      \<and> acmeTargets (config_at (fst (AddSNIMatchRoute p newId ipPort matcher dest)) ipPort)
        = acmeTargets (config_at p ipPort) @ [dest])
   \<and> (stopACME (config_at p ipPort) \<longrightarrow>
      acme_routes (config_at (fst (AddSNIMatchRoute p newId ipPort matcher dest)) ipPort)
        = acme_routes (config_at p ipPort)
      \<and> acmeTargets (config_at (fst (AddSNIMatchRoute p newId ipPort matcher dest)) ipPort)
        = acmeTargets (config_at p ipPort))
   \<and> stopACME (config_at (AddStopACMESearch p ipPort) ipPort)
   \<and> acmeTargets (config_at (perform_all new_Proxy calls) ipPort)
        = acme_dests False ipPort (map snd calls)
   \<and> length (acme_routes (config_at (perform_all new_Proxy calls) ipPort))
        = (if acme_dests False ipPort (map snd calls) = [] then 0 else 1)
   \<and> list_all (\<lambda>r. route_rule r = AcmeMatch ipPort)
        (acme_routes (config_at (perform_all new_Proxy calls) ipPort))"
proof -
  have inv: "acme_inv ipPort (config_at (perform_all new_Proxy calls) ipPort)"
    using acme_inv_perform_all [of ipPort new_Proxy calls]
    by (simp add: acme_inv_def acme_routes_def zero_config_def)
  have tg: "acmeTargets (config_at (perform_all new_Proxy calls) ipPort)
        = acme_dests False ipPort (map snd calls)"
    by (simp add: acmeTargets_perform_all zero_config_def)
  show ?thesis
    using inv tg
    by (simp add: config_at_effects acme_routes_def acme_inv_def)
qed

lemma plain_ids_perform:
  "ids_of (plain_routes (config_at (perform p i c) k))
     = ids_of (plain_routes (config_at p k))
       @ (if adds_route c \<and> ipPort_of c = k then [i] else [])"
  by (cases c) (auto simp: config_at_effects plain_routes_def ids_of_def)

lemma all_ids_perform:
  "set (ids_of (routes' (config_at (perform p i c) k)))
     \<subseteq> insert i (set (ids_of (routes' (config_at p k))))"
  by (cases c) (auto simp: config_at_effects ids_of_def)

lemma all_ids_perform_all:
  "set (ids_of (routes' (config_at (perform_all p cs) k)))
     \<subseteq> set (map fst cs) \<union> set (ids_of (routes' (config_at p k)))"
proof (induction cs arbitrary: p)
  case Nil
  then show ?case by simp
next
  case (Cons ic cs)
  obtain i c where ic: "ic = (i, c)" by (cases ic)
  show ?case
    using Cons.IH [of "perform p i c"] all_ids_perform [of p i c k]
    by (auto simp: ic)
qed

lemma plain_subset_all: "set (ids_of (plain_routes cfg)) \<subseteq> set (ids_of (routes' cfg))"
  by (auto simp: plain_routes_def ids_of_def)

lemma plain_ids_distinct_perform_all:
  "distinct (map fst cs) \<Longrightarrow> set (map fst cs) \<inter> set (ids_of (routes' (config_at p k))) = {}
     \<Longrightarrow> distinct (ids_of (plain_routes (config_at p k)))
     \<Longrightarrow> distinct (ids_of (plain_routes (config_at (perform_all p cs) k)))"
proof (induction cs arbitrary: p)
  case Nil
  then show ?case by simp
next
  case (Cons ic cs)
  obtain i c where ic: "ic = (i, c)" by (cases ic)
  have fresh: "i \<notin> set (ids_of (routes' (config_at p k)))" "i \<notin> set (map fst cs)"
    "distinct (map fst cs)"
    using Cons.prems by (auto simp: ic)
  have d1: "distinct (ids_of (plain_routes (config_at (perform p i c) k)))"
    using Cons.prems(3) fresh(1) plain_subset_all [of "config_at p k"]
    by (auto simp: plain_ids_perform)
  have d2: "set (map fst cs) \<inter> set (ids_of (routes' (config_at (perform p i c) k))) = {}"
    using all_ids_perform [of p i c k] Cons.prems(2) fresh(2) by (auto simp: ic)
  show ?case
    using Cons.IH [OF fresh(3) d2 d1] by (simp add: ic)
qed

lemma acme_ids_perform:
  "ids_of (acme_routes (config_at (perform p i c) k))
     = ids_of (acme_routes (config_at p k))
       @ (if adds_route c \<and> ipPort_of c = k
             \<and> ids_of (acme_routes (config_at (perform p i c) k))
                 \<noteq> ids_of (acme_routes (config_at p k))
          then [i] else [])"
  by (cases c) (simp_all add: config_at_effects acme_routes_def ids_of_def)

lemma acme_id_shared_perform:
  assumes "set (ids_of (acme_routes (config_at p k))) \<subseteq> set (ids_of (plain_routes (config_at p k)))"
  shows "set (ids_of (acme_routes (config_at (perform p i c) k)))
           \<subseteq> set (ids_of (plain_routes (config_at (perform p i c) k)))"
proof -
  have "set (ids_of (acme_routes (config_at (perform p i c) k)))
          \<subseteq> set (ids_of (acme_routes (config_at p k)))
            \<union> (if adds_route c \<and> ipPort_of c = k then {i} else {})"
    by (subst acme_ids_perform) auto
  moreover have "set (ids_of (plain_routes (config_at (perform p i c) k)))
          = set (ids_of (plain_routes (config_at p k)))
            \<union> (if adds_route c \<and> ipPort_of c = k then {i} else {})"
    by (auto simp: plain_ids_perform)
  ultimately show ?thesis
    using assms by blast
qed

lemma acme_id_shared_perform_all:
  "set (ids_of (acme_routes (config_at p k))) \<subseteq> set (ids_of (plain_routes (config_at p k)))
     \<Longrightarrow> set (ids_of (acme_routes (config_at (perform_all p cs) k)))
           \<subseteq> set (ids_of (plain_routes (config_at (perform_all p cs) k)))"
proof (induction cs arbitrary: p)
  case Nil
  then show ?case by simp
next
  case (Cons ic cs)
  obtain i c where ic: "ic = (i, c)" by (cases ic)
  show ?case
    using Cons.IH [OF acme_id_shared_perform [OF Cons.prems, of i c]]
    by (simp add: ic)
qed

text \<open>
  C9, as the specification states it, fails: the first \<open>AddSNIMatchRoute\<close> on a listener
  registers the ACME pseudo-route and the SNI route under the same id, so two distinct
  routes of the table share an id and the returned id identifies both.
\<close>

theorem route_ids_counterexample:
  "ids_of (routes' (config_at (fst (AddSNIMatchRoute (new_Proxy :: nat Proxy) 7 '':443''
        (equals ''a.test'') 1)) '':443'')) = [7, 7]
   \<and> map is_acme (routes' (config_at (fst (AddSNIMatchRoute (new_Proxy :: nat Proxy) 7 '':443''
        (equals ''a.test'') 1)) '':443'')) = [True, False]"
  by (simp add: config_at_AddSNIMatchRoute zero_config_def ids_of_def)

text \<open>
  C9 (amended). Every \<open>Add*Route\<close> function returns the id drawn during the call. If that
  id is not yet in the listener's table, exactly one route other than an ACME
  pseudo-route carries it afterwards. After any sequence of calls on a new proxy with
  pairwise distinct ids drawn, the routes of a listener other than ACME pseudo-routes
  have pairwise distinct ids, and the id of an ACME pseudo-route is the id of one of
  those routes (the SNI route registered by the same call).
\<close>

theorem plain_route_ids_distinct:
  "snd (AddSNIMatchRoute p newId ipPort matcher dest) = newId
   \<and> snd (AddSNIRoute p newId ipPort sni dest) = newId
   \<and> snd (AddSNIDynamicRoute p newId ipPort targetLookup) = newId
   \<and> snd (AddSNIDynamicSMTPRoute p newId ipPort serverName targetLookup) = newId
   \<and> snd (AddSNIRouteFunc p newId ipPort fn) = newId
   \<and> (adds_route c \<and> newId \<notin> set (ids_of (routes' (config_at p (ipPort_of c)))) \<longrightarrow>
        length (filter (\<lambda>r. route_id r = newId)
          (plain_routes (config_at (perform p newId c) (ipPort_of c)))) = 1)
   \<and> (distinct (map fst calls) \<longrightarrow>
        distinct (ids_of (plain_routes (config_at (perform_all new_Proxy calls) k))))
   \<and> set (ids_of (acme_routes (config_at (perform_all new_Proxy calls) k)))
        \<subseteq> set (ids_of (plain_routes (config_at (perform_all new_Proxy calls) k)))"
proof (intro conjI impI)
  show "snd (AddSNIMatchRoute p newId ipPort matcher dest) = newId"
    by (simp add: AddSNIMatchRoute_def Let_def)
  show "snd (AddSNIRoute p newId ipPort sni dest) = newId"
    by (simp add: AddSNIRoute_def AddSNIMatchRoute_def Let_def)
  show "snd (AddSNIDynamicRoute p newId ipPort targetLookup) = newId"
    by (simp add: AddSNIDynamicRoute_def addRoute_def)
  show "snd (AddSNIDynamicSMTPRoute p newId ipPort serverName targetLookup) = newId"
    by (simp add: AddSNIDynamicSMTPRoute_def addRoute_def Let_def)
  show "snd (AddSNIRouteFunc p newId ipPort fn) = newId"
    by (simp add: AddSNIRouteFunc_def addRoute_def)
next
  assume a: "adds_route c \<and> newId \<notin> set (ids_of (routes' (config_at p (ipPort_of c))))"
  let ?k = "ipPort_of c"
  have "newId \<notin> set (ids_of (plain_routes (config_at p ?k)))"
    using a plain_subset_all [of "config_at p ?k"] by auto
  then have old: "filter (\<lambda>i. i = newId) (ids_of (plain_routes (config_at p ?k))) = []"
    by (auto simp: filter_empty_conv)
  have "length (filter (\<lambda>r. route_id r = newId) (plain_routes (config_at (perform p newId c) ?k)))
        = length (filter (\<lambda>i. i = newId) (ids_of (plain_routes (config_at (perform p newId c) ?k))))"
    by (simp add: ids_of_def filter_map comp_def)
  also have "\<dots> = 1"
    using a old by (simp add: plain_ids_perform)
  finally show "length (filter (\<lambda>r. route_id r = newId)
          (plain_routes (config_at (perform p newId c) (ipPort_of c)))) = 1" .
next
  assume "distinct (map fst calls)"
  then show "distinct (ids_of (plain_routes (config_at (perform_all new_Proxy calls) k)))"
    using plain_ids_distinct_perform_all [of calls new_Proxy k]
    by (simp add: zero_config_def plain_routes_def ids_of_def)
next
  show "set (ids_of (acme_routes (config_at (perform_all new_Proxy calls) k)))
        \<subseteq> set (ids_of (plain_routes (config_at (perform_all new_Proxy calls) k)))"
    using acme_id_shared_perform_all [of new_Proxy k calls]
    by (simp add: zero_config_def plain_routes_def acme_routes_def ids_of_def)
qed

lemma example_states:
  "\<not> stopACME (config_at (new_Proxy :: nat Proxy) '':443'')"
  "acmeTargets (config_at (new_Proxy :: nat Proxy) '':443'') = []"
  "acme_routes (config_at (new_Proxy :: nat Proxy) '':443'') = []"
  "\<not> stopACME (config_at one_route '':443'')"
  "acmeTargets (config_at one_route '':443'') \<noteq> []"
  "acmeTargets (config_at one_route '':443'') = [1]"
  "ids_of (acme_routes (config_at one_route '':443'')) = [7]"
  "stopACME (config_at stopped_proxy '':443'')"
  "acmeTargets (config_at stopped_proxy '':443'') = []"
  "acme_routes (config_at stopped_proxy '':443'') = []"
  "acme_dests False '':443'' (map snd example_calls) = [1, 2]"
  "distinct (map fst example_calls)"
  by (simp_all add: one_route_def stopped_proxy_def example_calls_def config_at_effects
      zero_config_def acme_routes_def ids_of_def)

theorem acme_route_once_witness:
  "\<not> stopACME (config_at (new_Proxy :: nat Proxy) '':443'')
   \<and> acmeTargets (config_at (new_Proxy :: nat Proxy) '':443'') = []
   \<and> ids_of (acme_routes (config_at (fst (AddSNIMatchRoute (new_Proxy :: nat Proxy) 7 '':443''
         (equals ''a.test'') 1)) '':443'')) = [7]
   \<and> acmeTargets (config_at (fst (AddSNIMatchRoute (new_Proxy :: nat Proxy) 7 '':443''
         (equals ''a.test'') 1)) '':443'') = [1]
   \<and> \<not> stopACME (config_at one_route '':443'')
   \<and> acmeTargets (config_at one_route '':443'') \<noteq> []
   \<and> ids_of (acme_routes (config_at (fst (AddSNIMatchRoute one_route 8 '':443''
         (equals ''b.test'') 2)) '':443'')) = [7]
   \<and> acmeTargets (config_at (fst (AddSNIMatchRoute one_route 8 '':443''
         (equals ''b.test'') 2)) '':443'') = [1, 2]
   \<and> stopACME (config_at stopped_proxy '':443'')
   \<and> acme_routes (config_at (fst (AddSNIMatchRoute stopped_proxy 8 '':443''
         (equals ''b.test'') 2)) '':443'') = []
   \<and> acmeTargets (config_at (fst (AddSNIMatchRoute stopped_proxy 8 '':443''
         (equals ''b.test'') 2)) '':443'') = []
   \<and> acmeTargets (config_at (perform_all new_Proxy example_calls) '':443'') = [1, 2]
   \<and> length (acme_routes (config_at (perform_all new_Proxy example_calls) '':443'')) = 1"
proof -
  note ex = example_states
  have a: "acme_routes (config_at (fst (AddSNIMatchRoute (new_Proxy :: nat Proxy) 7 '':443''
         (equals ''a.test'') 1)) '':443'')
       = acme_routes (config_at (new_Proxy :: nat Proxy) '':443'')
           @ [\<lparr>route_id = 7, route_rule = AcmeMatch '':443''\<rparr>]
     \<and> acmeTargets (config_at (fst (AddSNIMatchRoute (new_Proxy :: nat Proxy) 7 '':443''
         (equals ''a.test'') 1)) '':443'') = [1]"
    using acme_route_once [of "new_Proxy :: nat Proxy" "'':443''" 7 "equals ''a.test''" 1 "[]"]
      ex(1,2)
    by blast
  have b: "acme_routes (config_at (fst (AddSNIMatchRoute one_route 8 '':443''
         (equals ''b.test'') 2)) '':443'') = acme_routes (config_at one_route '':443'')
     \<and> acmeTargets (config_at (fst (AddSNIMatchRoute one_route 8 '':443''
         (equals ''b.test'') 2)) '':443'') = acmeTargets (config_at one_route '':443'') @ [2]"
    using acme_route_once [of one_route "'':443''" 8 "equals ''b.test''" 2 "[]"] ex(4,5)
    by blast
  have c: "acme_routes (config_at (fst (AddSNIMatchRoute stopped_proxy 8 '':443''
         (equals ''b.test'') 2)) '':443'') = acme_routes (config_at stopped_proxy '':443'')
     \<and> acmeTargets (config_at (fst (AddSNIMatchRoute stopped_proxy 8 '':443''
         (equals ''b.test'') 2)) '':443'') = acmeTargets (config_at stopped_proxy '':443'')"
    using acme_route_once [of stopped_proxy "'':443''" 8 "equals ''b.test''" 2 "[]"] ex(8)
    by blast
  have d: "acmeTargets (config_at (perform_all new_Proxy example_calls) '':443'')
        = acme_dests False '':443'' (map snd example_calls)
     \<and> length (acme_routes (config_at (perform_all new_Proxy example_calls) '':443''))
        = (if acme_dests False '':443'' (map snd example_calls) = [] then 0 else 1)"
    using acme_route_once [of "new_Proxy :: nat Proxy" "'':443''" 7 "equals ''a.test''" 1
        example_calls]
    by blast
  from a b c d ex show ?thesis
    by (simp add: ids_of_def)
qed

lemma example_ids:
  "adds_route (CallAddSNIMatchRoute '':443'' (equals ''b.test'') (2 :: nat))"
  "8 \<notin> set (ids_of (routes' (config_at one_route
            (ipPort_of (CallAddSNIMatchRoute '':443'' (equals ''b.test'') (2 :: nat))))))"
  "ids_of (routes' (config_at (perform_all new_Proxy example_calls) '':443''))
     = [7, 7, 8, 10, 11]"
  "ids_of (plain_routes (config_at (perform_all new_Proxy example_calls) '':443''))
     = [7, 8, 10, 11]"
  by (simp_all add: one_route_def example_calls_def config_at_effects
      zero_config_def acme_routes_def plain_routes_def ids_of_def)

theorem plain_route_ids_distinct_witness:
  "adds_route (CallAddSNIMatchRoute '':443'' (equals ''b.test'') (2 :: nat))
   \<and> 8 \<notin> set (ids_of (routes' (config_at one_route
            (ipPort_of (CallAddSNIMatchRoute '':443'' (equals ''b.test'') (2 :: nat))))))
   \<and> length (filter (\<lambda>r. route_id r = 8)
        (plain_routes (config_at
           (perform one_route 8 (CallAddSNIMatchRoute '':443'' (equals ''b.test'') 2))
           (ipPort_of (CallAddSNIMatchRoute '':443'' (equals ''b.test'') (2 :: nat)))))) = 1
   \<and> distinct (map fst example_calls)
   \<and> distinct (ids_of (plain_routes (config_at (perform_all new_Proxy example_calls) '':443'')))
   \<and> ids_of (routes' (config_at (perform_all new_Proxy example_calls) '':443''))
       = [7, 7, 8, 10, 11]
   \<and> ids_of (plain_routes (config_at (perform_all new_Proxy example_calls) '':443''))
       = [7, 8, 10, 11]"
proof -
  note inst = plain_route_ids_distinct [of one_route 8 "'':443''" "equals ''b.test''" 2
      "''b.test''" None "''mx''" None
      "CallAddSNIMatchRoute '':443'' (equals ''b.test'') 2" example_calls "'':443''"]
  have a: "length (filter (\<lambda>r. route_id r = 8)
        (plain_routes (config_at
           (perform one_route 8 (CallAddSNIMatchRoute '':443'' (equals ''b.test'') 2))
           (ipPort_of (CallAddSNIMatchRoute '':443'' (equals ''b.test'') (2 :: nat)))))) = 1"
    using inst example_ids(1,2) by blast
  have b: "distinct (ids_of (plain_routes (config_at (perform_all new_Proxy example_calls) '':443'')))"
    using inst example_states(12) by blast
  from a b example_ids example_states(12) show ?thesis
    by simp
qed

section \<open>Properties of the SMTP greeting\<close>

lemma IsSpace_newline: "IsSpace newline"
  by (simp add: IsSpace_def newline_def)

lemma advance_literal_Inr: "advance_literal lit inp = Inr r \<longleftrightarrow> inp = lit @ r"
  by (induction lit inp rule: advance_literal.induct) auto

lemma advance_literal_append [simp]: "advance_literal lit (lit @ r) = Inr r"
  by (simp add: advance_literal_Inr)

lemma SkipSpace_token_start: "\<not> IsSpace t \<Longrightarrow> SkipSpace (t # ts) = Inr (t # ts)"
  by (auto simp: IsSpace_newline)

lemma dropWhile_blank_head:
  "dropWhile (\<lambda>c. IsSpace c \<and> c \<noteq> newline) ss = t # ts \<Longrightarrow> t \<noteq> newline \<Longrightarrow> \<not> IsSpace t"
  using hd_dropWhile [of "\<lambda>c. IsSpace c \<and> c \<noteq> newline" ss] by auto

lemma Sscanf_EHLO_no_prefix:
  "\<nexists>r. l = str ''EHLO'' @ r \<Longrightarrow> \<exists>e. Sscanf_EHLO l = (0, Some e, [])"
  by (cases "advance_literal (str ''EHLO'') l")
     (auto simp: Sscanf_EHLO_def advance_literal_Inr)

lemma Sscanf_EHLO_bare: "Sscanf_EHLO (str ''EHLO'') = (0, Some EOF, [])"
  using advance_literal_append [of "str ''EHLO''" "[]"]
  by (simp add: Sscanf_EHLO_def advance_space_def convertString_def del: advance_literal_append)

lemma Sscanf_EHLO_eval:
  "Sscanf_EHLO (str ''EHLO'' @ s # ss) =
     (if \<not> IsSpace s then (0, Some ExpectedSpace, [])
      else if s = newline then (0, Some NewlineInInput, [])
      else case dropWhile (\<lambda>c. IsSpace c \<and> c \<noteq> newline) ss of
             [] \<Rightarrow> (0, Some EOF, [])
           | t # ts \<Rightarrow>
               if t = newline then (0, Some UnexpectedNewline, [])
               else (1, None, takeWhile (\<lambda>c. \<not> IsSpace c) (t # ts)))"
proof (cases "dropWhile (\<lambda>c. IsSpace c \<and> c \<noteq> newline) ss")
  case Nil
  show ?thesis
    by (simp add: Sscanf_EHLO_def advance_space_def convertString_def Nil)
next
  case (Cons t ts)
  show ?thesis
  proof (cases "t = newline")
    case True
    show ?thesis
      by (simp add: Sscanf_EHLO_def advance_space_def Cons True)
  next
    case False
    then have "\<not> IsSpace t"
      using Cons dropWhile_blank_head by blast
    with False show ?thesis
      by (simp add: Sscanf_EHLO_def advance_space_def convertString_def token_def Cons)
  qed
qed

lemma Sscanf_EHLO_ok:
  "Sscanf_EHLO l = (n, None, name) \<longleftrightarrow>
     n = 1 \<and> (\<exists>s ss t ts. l = str ''EHLO'' @ s # ss \<and> IsSpace s \<and> s \<noteq> newline
        \<and> dropWhile (\<lambda>c. IsSpace c \<and> c \<noteq> newline) ss = t # ts \<and> t \<noteq> newline
        \<and> name = takeWhile (\<lambda>c. \<not> IsSpace c) (t # ts))"
  (is "?L \<longleftrightarrow> ?R")
proof
  assume L: ?L
  then obtain r where r: "l = str ''EHLO'' @ r"
    using Sscanf_EHLO_no_prefix [of l] by auto
  show ?R
  proof (cases r)
    case Nil
    with L r show ?thesis by (simp add: Sscanf_EHLO_bare)
  next
    case (Cons s ss)
    with L r show ?thesis
      by (auto simp: Sscanf_EHLO_eval split: if_splits list.splits)
  qed
next
  assume ?R
  then show ?L
    by (auto simp: Sscanf_EHLO_eval)
qed

lemma Sscanf_EHLO_count: "Sscanf_EHLO l = (n, None, name) \<Longrightarrow> n = 1"
  by (simp add: Sscanf_EHLO_ok)

lemma ehlo_grammar:
  "(\<exists>s ss t ts. l = str ''EHLO'' @ s # ss \<and> IsSpace s \<and> s \<noteq> newline
        \<and> dropWhile (\<lambda>c. IsSpace c \<and> c \<noteq> newline) ss = t # ts \<and> t \<noteq> newline
        \<and> name = takeWhile (\<lambda>c. \<not> IsSpace c) (t # ts))
   \<longleftrightarrow>
   (\<exists>sp rest. l = str ''EHLO'' @ sp @ name @ rest
        \<and> sp \<noteq> [] \<and> list_all (\<lambda>c. IsSpace c \<and> c \<noteq> newline) sp
        \<and> name \<noteq> [] \<and> list_all (\<lambda>c. \<not> IsSpace c) name
        \<and> (case rest of [] \<Rightarrow> True | c # cs \<Rightarrow> IsSpace c))"
  (is "?A \<longleftrightarrow> ?B")
proof
  assume ?A
  then obtain s ss t ts where a: "l = str ''EHLO'' @ s # ss" "IsSpace s" "s \<noteq> newline"
    "dropWhile (\<lambda>c. IsSpace c \<and> c \<noteq> newline) ss = t # ts" "t \<noteq> newline"
    "name = takeWhile (\<lambda>c. \<not> IsSpace c) (t # ts)"
    by blast
  let ?P = "\<lambda>c. IsSpace c \<and> c \<noteq> newline"
  let ?sp = "s # takeWhile ?P ss"
  let ?rest = "dropWhile (\<lambda>c. \<not> IsSpace c) (t # ts)"
  have nt: "\<not> IsSpace t" using a(4,5) dropWhile_blank_head by blast
  have "ss = takeWhile ?P ss @ name @ ?rest"
    using a(4,6) takeWhile_dropWhile_id [of ?P ss] by simp
  then have 1: "l = str ''EHLO'' @ ?sp @ name @ ?rest"
    using a(1) by simp
  have 2: "list_all ?P ?sp"
    using a(2,3) by (auto simp: list_all_iff dest: set_takeWhileD)
  have 3: "name \<noteq> []" "list_all (\<lambda>c. \<not> IsSpace c) name"
    using a(6) nt by (auto simp: list_all_iff dest: set_takeWhileD)
  have 4: "case ?rest of [] \<Rightarrow> True | c # cs \<Rightarrow> IsSpace c"
    using hd_dropWhile [of "\<lambda>c. \<not> IsSpace c" "t # ts"]
    by (cases ?rest) auto
  from 1 2 3 4 show ?B
    by (intro exI [of _ ?sp] exI [of _ ?rest]) simp
next
  assume ?B
  then obtain sp rest where b: "l = str ''EHLO'' @ sp @ name @ rest" "sp \<noteq> []"
    "list_all (\<lambda>c. IsSpace c \<and> c \<noteq> newline) sp" "name \<noteq> []"
    "list_all (\<lambda>c. \<not> IsSpace c) name" "case rest of [] \<Rightarrow> True | c # cs \<Rightarrow> IsSpace c"
    by blast
  let ?P = "\<lambda>c. IsSpace c \<and> c \<noteq> newline"
  obtain s sp' where sp: "sp = s # sp'" using b(2) by (cases sp) auto
  obtain t ts where nm: "name = t # ts" using b(4) by (cases name) auto
  have nt: "\<not> IsSpace t" using b(5) nm by simp
  have d: "dropWhile ?P (sp' @ name @ rest) = t # ts @ rest"
    using b(3) sp nm nt by (simp add: dropWhile_append3 list_all_iff)
  have tk: "takeWhile (\<lambda>c. \<not> IsSpace c) (t # ts @ rest) = name"
  proof (cases rest)
    case Nil
    with b(5) nm show ?thesis by (simp add: list_all_iff)
  next
    case (Cons c cs)
    with b(6) have "IsSpace c" by simp
    with b(5) nm Cons show ?thesis
      using takeWhile_tail [of "\<lambda>c. \<not> IsSpace c" c "t # ts" cs]
      by (simp add: list_all_iff)
  qed
  have "t \<noteq> newline" using nt IsSpace_newline by auto
  with b(1,3) sp d tk show ?A
    by (intro exI [of _ s] exI [of _ "sp' @ name @ rest"] exI [of _ t] exI [of _ "ts @ rest"])
       simp
qed

lemma greetSMTP_variants: "greetSMTP' c serverName = greetSMTP c serverName"
proof (cases "ReadLine (PrintfLine c (str ''220 '' @ serverName @ str '' Service ready''))")
  case (Pair res c2)
  show ?thesis
  proof (cases res)
    case (Inl e)
    with Pair show ?thesis by (simp add: greetSMTP_def greetSMTP'_def)
  next
    case (Inr l)
    obtain n e name where sc: "Sscanf_EHLO l = (n, e, name)"
      by (cases "Sscanf_EHLO l") auto
    show ?thesis
    proof (cases e)
      case None
      with sc have "n = 1" using Sscanf_EHLO_count by blast
      with Pair Inr sc None show ?thesis by (simp add: greetSMTP_def greetSMTP'_def)
    next
      case (Some err)
      with Pair Inr sc show ?thesis by (simp add: greetSMTP_def greetSMTP'_def)
    qed
  qed
qed

lemma greetSMTP_written:
  "written (snd (greetSMTP c serverName))
     = written c @ [str ''220 '' @ serverName @ str '' Service ready'']"
  by (cases "incoming c")
     (auto simp: greetSMTP_def Let_def ReadLine_def PrintfLine_def
        split: prod.splits option.splits)

lemma greetSMTP_Inr:
  "fst (greetSMTP c serverName) = Inr name \<longleftrightarrow>
     (\<exists>l ls. incoming c = l # ls \<and> (\<exists>n. Sscanf_EHLO l = (n, None, name)))"
  by (cases "incoming c")
     (auto simp: greetSMTP_def Let_def ReadLine_def PrintfLine_def
        split: prod.splits option.splits)

lemma Sscanf_EHLO_a_b: "Sscanf_EHLO (str ''EHLO a b'') = (1, None, str ''a'')"
  by (simp add: Sscanf_EHLO_def advance_space_def convertString_def token_def str_def
      IsSpace_def newline_def)

text \<open>
  C5, as the specification states it, fails: the line \<open>EHLO a b\<close> has two tokens after
  \<open>EHLO\<close>, yet both copies of \<open>greetSMTP\<close> succeed on it and return the client name
  \<open>a\<close>, since \<open>Sscanf\<close> does not look at the input after the word it has read.
\<close>

theorem greetSMTP_two_tokens_counterexample:
  "Fields (str ''EHLO a b'') = [str ''EHLO'', str ''a'', str ''b'']
   \<and> fst (greetSMTP (smtp_client [''EHLO a b'']) (str ''mx'')) = Inr (str ''a'')
   \<and> fst (greetSMTP' (smtp_client [''EHLO a b'']) (str ''mx'')) = Inr (str ''a'')"
proof -
  have "Fields (str ''EHLO a b'') = [str ''EHLO'', str ''a'', str ''b'']"
    by (simp add: Fields_def str_def IsSpace_def)
  moreover have "fst (greetSMTP (smtp_client [''EHLO a b'']) (str ''mx'')) = Inr (str ''a'')"
    by (simp add: greetSMTP_def smtp_client_def ReadLine_def PrintfLine_def Sscanf_EHLO_a_b)
  moreover have "fst (greetSMTP' (smtp_client [''EHLO a b'']) (str ''mx'')) = Inr (str ''a'')"
    by (simp add: greetSMTP'_def smtp_client_def ReadLine_def PrintfLine_def Sscanf_EHLO_a_b)
  ultimately show ?thesis by simp
qed

text \<open>
  C5 (amended). \<open>greetSMTP\<close> first writes the greeting \<open>220 <serverName> Service ready\<close>, and
  its two copies agree. It then succeeds with client name \<open>name\<close> exactly when a line
  could be read and consists of \<open>EHLO\<close>, one or more spaces other than newlines, the
  non-empty word \<open>name\<close> without spaces, and then either nothing or a space followed by
  anything. In every other case (no line, another first word, no space after \<open>EHLO\<close>,
  no token) it returns an error and no client name.
\<close>

theorem greetSMTP_accepts:
  "written (snd (greetSMTP c serverName))
     = written c @ [str ''220 '' @ serverName @ str '' Service ready'']
   \<and> greetSMTP' c serverName = greetSMTP c serverName
   \<and> (fst (greetSMTP c serverName) = Inr name \<longleftrightarrow>
        (\<exists>l ls sp rest. incoming c = l # ls \<and> l = str ''EHLO'' @ sp @ name @ rest
           \<and> sp \<noteq> [] \<and> list_all (\<lambda>r. IsSpace r \<and> r \<noteq> newline) sp
           \<and> name \<noteq> [] \<and> list_all (\<lambda>r. \<not> IsSpace r) name
           \<and> (case rest of [] \<Rightarrow> True | r # rs \<Rightarrow> IsSpace r)))
   \<and> ((\<nexists>name. fst (greetSMTP c serverName) = Inr name)
        \<longrightarrow> (\<exists>e. fst (greetSMTP c serverName) = Inl e))"
proof (intro conjI)
  show "written (snd (greetSMTP c serverName))
     = written c @ [str ''220 '' @ serverName @ str '' Service ready'']"
    by (rule greetSMTP_written)
  show "greetSMTP' c serverName = greetSMTP c serverName"
    by (rule greetSMTP_variants)
  show "fst (greetSMTP c serverName) = Inr name \<longleftrightarrow>
        (\<exists>l ls sp rest. incoming c = l # ls \<and> l = str ''EHLO'' @ sp @ name @ rest
           \<and> sp \<noteq> [] \<and> list_all (\<lambda>r. IsSpace r \<and> r \<noteq> newline) sp
           \<and> name \<noteq> [] \<and> list_all (\<lambda>r. \<not> IsSpace r) name
           \<and> (case rest of [] \<Rightarrow> True | r # rs \<Rightarrow> IsSpace r))"
    unfolding greetSMTP_Inr Sscanf_EHLO_ok
    using ehlo_grammar [of _ name] by auto
  show "(\<nexists>name. fst (greetSMTP c serverName) = Inr name)
        \<longrightarrow> (\<exists>e. fst (greetSMTP c serverName) = Inl e)"
    by (cases "fst (greetSMTP c serverName)") auto
qed

theorem greetSMTP_accepts_witness:
  "fst (greetSMTP (smtp_client [''EHLO client1'', ''STARTTLS'']) (str ''mx''))
     = Inr (str ''client1'')
   \<and> written (snd (greetSMTP (smtp_client [''EHLO client1'', ''STARTTLS'']) (str ''mx'')))
     = [str ''220 mx Service ready'']
   \<and> fst (greetSMTP (smtp_client [''EHLO a b'']) (str ''mx'')) = Inr (str ''a'')
   \<and> (\<nexists>name. fst (greetSMTP (smtp_client [''EHLO'']) (str ''mx'')) = Inr name)
   \<and> (\<exists>e. fst (greetSMTP (smtp_client [''EHLO'']) (str ''mx'')) = Inl e)"
proof -
  have blank: "list_all (\<lambda>r. IsSpace r \<and> r \<noteq> newline) (str '' '')"
    by (simp add: str_def IsSpace_def newline_def)
  have a: "fst (greetSMTP (smtp_client [''EHLO client1'', ''STARTTLS'']) (str ''mx''))
     = Inr (str ''client1'')"
  proof -
    have "incoming (smtp_client [''EHLO client1'', ''STARTTLS''])
            = str ''EHLO client1'' # [str ''STARTTLS'']
          \<and> str ''EHLO client1'' = str ''EHLO'' @ str '' '' @ str ''client1'' @ []
          \<and> str '' '' \<noteq> [] \<and> list_all (\<lambda>r. IsSpace r \<and> r \<noteq> newline) (str '' '')
          \<and> str ''client1'' \<noteq> [] \<and> list_all (\<lambda>r. \<not> IsSpace r) (str ''client1'')
          \<and> (case [] :: rune list of [] \<Rightarrow> True | r # rs \<Rightarrow> IsSpace r)"
      using blank by (simp add: smtp_client_def) (simp add: str_def IsSpace_def)
    then show ?thesis
      using greetSMTP_accepts [of "smtp_client [''EHLO client1'', ''STARTTLS'']" "str ''mx''"
          "str ''client1''"]
      by blast
  qed
  have b: "fst (greetSMTP (smtp_client [''EHLO a b'']) (str ''mx'')) = Inr (str ''a'')"
  proof -
    have "incoming (smtp_client [''EHLO a b'']) = str ''EHLO a b'' # []
          \<and> str ''EHLO a b'' = str ''EHLO'' @ str '' '' @ str ''a'' @ str '' b''
          \<and> str '' '' \<noteq> [] \<and> list_all (\<lambda>r. IsSpace r \<and> r \<noteq> newline) (str '' '')
          \<and> str ''a'' \<noteq> [] \<and> list_all (\<lambda>r. \<not> IsSpace r) (str ''a'')
          \<and> (case str '' b'' of [] \<Rightarrow> True | r # rs \<Rightarrow> IsSpace r)"
      using blank by (simp add: smtp_client_def) (simp add: str_def IsSpace_def)
    then show ?thesis
      using greetSMTP_accepts [of "smtp_client [''EHLO a b'']" "str ''mx''" "str ''a''"]
      by blast
  qed
  have w: "written (snd (greetSMTP (smtp_client [''EHLO client1'', ''STARTTLS'']) (str ''mx'')))
     = [str ''220 mx Service ready'']"
    using greetSMTP_accepts [of "smtp_client [''EHLO client1'', ''STARTTLS'']" "str ''mx''" "[]"]
    by (simp add: smtp_client_def str_def)
  have none: "\<nexists>name. fst (greetSMTP (smtp_client [''EHLO'']) (str ''mx'')) = Inr name"
  proof
    assume "\<exists>name. fst (greetSMTP (smtp_client [''EHLO'']) (str ''mx'')) = Inr name"
    then obtain name where "fst (greetSMTP (smtp_client [''EHLO'']) (str ''mx'')) = Inr name"
      by blast
    then obtain sp rest where "str ''EHLO'' = str ''EHLO'' @ sp @ name @ rest" "sp \<noteq> []"
      using greetSMTP_accepts [of "smtp_client [''EHLO'']" "str ''mx''" name]
      by (auto simp: smtp_client_def)
    then show False by simp
  qed
  then have c: "\<exists>e. fst (greetSMTP (smtp_client [''EHLO'']) (str ''mx'')) = Inl e"
    using greetSMTP_accepts [of "smtp_client [''EHLO'']" "str ''mx''" "[]"]
    by blast
  from a b w none c show ?thesis
    by simp
qed

end
